theory Spec2Isabelle
  imports Complex_Main "HOL-Library.Multiset"
begin

section \<open>Data model\<close>

text \<open>
  The values \<^verbatim>\<open>json.loads\<close> produces and \<^verbatim>\<open>get_repo_info\<close> puts under
  \<^verbatim>\<open>custom_metadata\<close>. Python's \<^verbatim>\<open>None\<close> is \<open>JNull\<close>; numbers are
  restricted to integers; a \<open>JObj\<close> lists the items of a Python dict in iteration order, so
  its keys are distinct. A string is the sequence of its code points, one \<open>char\<close> each: the
  model covers the strings whose code points are below 256.
\<close>

datatype json =
    JNull
  | JBool bool
  | JInt int
  | JStr string
  | JArr "json list"
  | JObj "(string \<times> json) list"

datatype py_error = AttributeError | TypeError

text \<open>Python truthiness, as tested by \<^verbatim>\<open>if x:\<close>.\<close>

fun truthy :: "json \<Rightarrow> bool" where
  "truthy JNull = False"
| "truthy (JBool b) = b"
| "truthy (JInt n) = (n \<noteq> 0)"
| "truthy (JStr s) = (s \<noteq> [])"
| "truthy (JArr xs) = (xs \<noteq> [])"
| "truthy (JObj kvs) = (kvs \<noteq> [])"

text \<open>\<^verbatim>\<open>x.get(k)\<close>: only a dict has the method; a missing key gives \<^verbatim>\<open>None\<close>.\<close>

fun py_get :: "json \<Rightarrow> string \<Rightarrow> py_error + json" where
  "py_get (JObj kvs) k = Inr (case map_of kvs k of None \<Rightarrow> JNull | Some v \<Rightarrow> v)"
| "py_get _ k = Inl AttributeError"

text \<open>
  \<^verbatim>\<open>for tech in x\<close>: a list yields its elements, a string its characters, a dict its keys;
  anything else is not iterable.
\<close>

fun py_iter :: "json \<Rightarrow> py_error + json list" where
  "py_iter (JArr xs) = Inr xs"
| "py_iter (JStr s) = Inr (map (\<lambda>c. JStr [c]) s)"
| "py_iter (JObj kvs) = Inr (map (\<lambda>kv. JStr (fst kv)) kvs)"
| "py_iter _ = Inl TypeError"

text \<open>
  The argument \<^verbatim>\<open>repo_data\<close> as \<^verbatim>\<open>get_repo_info\<close> builds it, restricted to the keys the
  database modules read. \<^verbatim>\<open>description\<close> and \<^verbatim>\<open>language\<close> may be \<^verbatim>\<open>None\<close>.
\<close>

record repo_data =
  d_name :: string
  d_owner_login :: string
  d_description :: "string option"
  d_stars :: int
  d_forks :: int
  d_language :: "string option"
  d_updated_at :: string
  d_custom_metadata :: json

text \<open>
  A row of table \<^verbatim>\<open>repositories\<close>. Column \<^verbatim>\<open>metadata\<close> holds the text
  \<^verbatim>\<open>json.dumps(custom_metadata)\<close>; the model keeps the value that text serialises.
\<close>

record repo_row =
  repo_id :: nat
  repo_url :: string
  name :: string
  owner :: string
  description :: "string option"
  stars :: int
  forks :: int
  language :: "string option"
  last_updated :: string
  last_synced :: string
  metadata :: json

text \<open>
  A row of \<^verbatim>\<open>technologies\<close>: \<^verbatim>\<open>id\<close> (or the key of a cloud item), \<^verbatim>\<open>name\<close>,
  \<^verbatim>\<open>count\<close>. The types of name and count differ between the backends.
\<close>

record ('n, 'c) tech_row =
  tech_id :: nat
  tech_name :: 'n
  tech_count :: 'c

section \<open>The embedded SQLite backend (database.py)\<close>

text \<open>
  What can go wrong in one attempt, before anything is committed:
  \<^item> \<open>ConnectFailed\<close>: \<^verbatim>\<open>get_db_connection()\<close> returned \<^verbatim>\<open>None\<close>;
  \<^item> \<open>Locked\<close>: \<^verbatim>\<open>sqlite3.OperationalError\<close> whose text has "database is locked";
  \<^item> \<open>OtherOperational\<close>: any other \<^verbatim>\<open>sqlite3.OperationalError\<close>;
  \<^item> \<open>OtherException\<close>: any other exception.
  The faults of the successive attempts are an input of the model, \<open>faults\<close>; once the
  script is used up no attempt meets a fault from outside.

  The program opens a connection for every attempt and closes it on the paths that end
  well. A connection it does not close stays open until Python's garbage collector finds
  it. \<open>left_open\<close> says that such a connection is in the middle of a write transaction and
  so holds the write lock of the database (\<^verbatim>\<open>update_technology(None)\<close> leaves one behind,
  see \<open>update_technology_entry\<close>). While it does, the statements that only read go through
  (the database is in WAL mode), and every statement that writes fails with "database is
  locked". When the collector runs the program does not decide: \<open>collector\<close> is a second
  input of the model and says, for each statement that finds the lock taken, whether the
  collector has closed the connection by then; once that script is used up it has not.
\<close>

datatype fault = NoFault | ConnectFailed | Locked | OtherOperational | OtherException

record world =
  repositories :: "repo_row list"
  technologies :: "(string, int) tech_row list"
  next_repo_id :: nat
  next_tech_id :: nat
  faults :: "fault list"
  attempts :: nat
  sleeps :: "rat list"
  left_open :: bool
  collector :: "bool list"

definition next_fault :: "world \<Rightarrow> fault \<times> world" where
  "next_fault w =
     (case faults w of
        [] \<Rightarrow> (NoFault, w)
      | f # fs \<Rightarrow> (f, w\<lparr>faults := fs\<rparr>))"

text \<open>The first statement of an attempt that writes: it gets the write lock unless a
  connection left open still holds it.\<close>

definition take_write_lock :: "world \<Rightarrow> bool \<times> world" where
  "take_write_lock w =
     (if left_open w then
        (case collector w of
           [] \<Rightarrow> (False, w)
         | b # bs \<Rightarrow>
             if b then (True, w\<lparr>left_open := False, collector := bs\<rparr>)
             else (False, w\<lparr>collector := bs\<rparr>))
      else (True, w))"

text \<open>
  What one attempt meets before any of its statements has taken effect: the fault the
  script holds for it, or else, when it comes to a statement that writes (\<open>writes\<close>, which
  may depend on what the attempt has read), a locked database if the write lock cannot be
  had.
\<close>

definition attempt_fault :: "(world \<Rightarrow> bool) \<Rightarrow> world \<Rightarrow> fault \<times> world" where
  "attempt_fault writes w =
     (case next_fault w of
        (NoFault, w1) \<Rightarrow>
          if writes w1 then
            (case take_write_lock w1 of
               (True, w2) \<Rightarrow> (NoFault, w2)
             | (False, w2) \<Rightarrow> (Locked, w2))
          else (NoFault, w1)
      | (f, w1) \<Rightarrow> (f, w1))"

definition max_retries :: nat where
  "max_retries = 5"

text \<open>
  The loop that \<^verbatim>\<open>add_repository\<close>, \<^verbatim>\<open>update_technology\<close>,
  \<^verbatim>\<open>decrease_technology_count\<close> and \<^verbatim>\<open>get_technology_stats\<close> each write out:
  \<^verbatim>\<open>
  for attempt in range(max_retries):
      try:
          conn = get_db_connection()
          if conn is None: return <failed>
          <body>
      except sqlite3.OperationalError as e:
          if "database is locked" in str(e) and attempt < max_retries - 1:
              time.sleep(retry_delay); retry_delay *= 1.5; continue
          return <failed>
      except Exception as e:
          return <failed>
  return <failed>
  \<close>
  \<open>attempts\<close> counts the passes through the loop, \<open>sleeps\<close> records the arguments of
  \<^verbatim>\<open>time.sleep\<close>. \<open>writes\<close> tells whether the body, in the state it finds, comes to a
  statement that writes; \<open>body\<close> is what the attempt does when nothing fails.
\<close>

function retry_loop ::
  "(world \<Rightarrow> bool) \<Rightarrow> (world \<Rightarrow> 'a \<times> world) \<Rightarrow> 'a \<Rightarrow> nat \<Rightarrow> rat \<Rightarrow> world
     \<Rightarrow> 'a \<times> world" where
  "retry_loop writes body failed attempt retry_delay w =
     (if attempt < max_retries then
        (case attempt_fault writes (w\<lparr>attempts := attempts w + 1\<rparr>) of
           (NoFault, w1) \<Rightarrow> body w1
         | (ConnectFailed, w1) \<Rightarrow> (failed, w1)
         | (Locked, w1) \<Rightarrow>
             if attempt < max_retries - 1
             then retry_loop writes body failed (attempt + 1) (retry_delay * 1.5)
                    (w1\<lparr>sleeps := sleeps w1 @ [retry_delay]\<rparr>)
             else (failed, w1)
         | (OtherOperational, w1) \<Rightarrow> (failed, w1)
         | (OtherException, w1) \<Rightarrow> (failed, w1))
      else (failed, w))"
  by pat_completeness auto
termination
  by (relation "measure (\<lambda>(writes, body, failed, attempt, retry_delay, w). max_retries - attempt)")
     (auto simp: max_retries_def)

declare retry_loop.simps [simp del]

subsection \<open>The technology tally\<close>

text \<open>
  The body of \<^verbatim>\<open>update_technology\<close>: \<^verbatim>\<open>UPDATE ... SET count = count + 1 WHERE name = ?\<close>
  when a row has the name, else \<^verbatim>\<open>INSERT ... VALUES (?, 1)\<close> with the next
  \<^verbatim>\<open>AUTOINCREMENT\<close> id.
\<close>

definition increment_row :: "string \<Rightarrow> world \<Rightarrow> world" where
  "increment_row n w =
     (if \<exists>r \<in> set (technologies w). tech_name r = n
      then w\<lparr>technologies :=
               map (\<lambda>r. if tech_name r = n then r\<lparr>tech_count := tech_count r + 1\<rparr> else r)
                 (technologies w)\<rparr>
      else w\<lparr>technologies :=
               technologies w @ [\<lparr>tech_id = next_tech_id w, tech_name = n, tech_count = 1\<rparr>],
             next_tech_id := next_tech_id w + 1\<rparr>)"

definition update_technology :: "string \<Rightarrow> world \<Rightarrow> world" where
  "update_technology n w =
     snd (retry_loop (\<lambda>w1. True) (\<lambda>w1. ((), increment_row n w1)) () 0 1.0 w)"

text \<open>
  The body of \<^verbatim>\<open>decrease_technology_count\<close>:
  \<^verbatim>\<open>UPDATE technologies SET count = count - 1 WHERE name = ?\<close> and then
  \<^verbatim>\<open>DELETE FROM technologies WHERE count <= 0\<close>.
\<close>

definition decrement_rows :: "string \<Rightarrow> world \<Rightarrow> world" where
  "decrement_rows n w =
     w\<lparr>technologies :=
         filter (\<lambda>r. \<not> tech_count r \<le> 0)
           (map (\<lambda>r. if tech_name r = n then r\<lparr>tech_count := tech_count r - 1\<rparr> else r)
              (technologies w))\<rparr>"

definition decrease_technology_count :: "string \<Rightarrow> world \<Rightarrow> world" where
  "decrease_technology_count n w =
     snd (retry_loop (\<lambda>w1. True) (\<lambda>w1. ((), decrement_rows n w1)) () 0 1.0 w)"

text \<open>
  The query of \<^verbatim>\<open>get_technology_stats\<close>,
  \<^verbatim>\<open>SELECT name, count FROM technologies ORDER BY count DESC\<close>. SQL fixes the rows returned
  and their order by count; the order among rows of equal count is left to the engine. The
  engine's execution of the query is therefore a parameter \<open>run_query\<close> of the model, and
  \<open>order_by_count_desc\<close> is what SQL promises about it. \<open>stable_engine\<close> is what the SQLite
  library under the program does with this query: it reads the table in the order of the
  rowid, which is the column \<^verbatim>\<open>id\<close>, and sorts the rows by count, leaving rows of equal
  count in the order read.
\<close>

definition order_by_count_desc ::
  "(string, int) tech_row list \<Rightarrow> (string, int) tech_row list \<Rightarrow> bool" where
  "order_by_count_desc rows res \<longleftrightarrow>
     mset res = mset rows \<and> sorted_wrt (\<lambda>a b. tech_count a \<ge> tech_count b) res"

definition get_technology_stats ::
  "((string, int) tech_row list \<Rightarrow> (string, int) tech_row list) \<Rightarrow> world
     \<Rightarrow> (string \<times> int) list \<times> world" where
  "get_technology_stats run_query w =
     retry_loop (\<lambda>w1. False)
       (\<lambda>w1. (map (\<lambda>r. (tech_name r, tech_count r)) (run_query (technologies w1)), w1))
       [] 0 1.0 w"

definition stable_engine :: "(string, int) tech_row list \<Rightarrow> (string, int) tech_row list" where
  "stable_engine rows = sort_key (\<lambda>r. - tech_count r) rows"

subsection \<open>Repositories\<close>

text \<open>The nine columns that both \<^verbatim>\<open>INSERT\<close> and \<^verbatim>\<open>UPDATE\<close> take from \<^verbatim>\<open>repo_data\<close>;
  \<open>now\<close> is \<^verbatim>\<open>datetime.datetime.now().strftime(...)\<close>.\<close>

definition overwrite :: "string \<Rightarrow> repo_data \<Rightarrow> 'a repo_row_scheme \<Rightarrow> 'a repo_row_scheme" where
  "overwrite now rd r =
     r\<lparr>name := d_name rd, owner := d_owner_login rd, description := d_description rd,
       stars := d_stars rd, forks := d_forks rd, language := d_language rd,
       last_updated := d_updated_at rd, last_synced := now,
       metadata := d_custom_metadata rd\<rparr>"

definition new_row :: "nat \<Rightarrow> string \<Rightarrow> string \<Rightarrow> repo_data \<Rightarrow> repo_row" where
  "new_row i now url rd =
     \<lparr>repo_id = i, repo_url = url, name = d_name rd, owner = d_owner_login rd,
      description = d_description rd, stars = d_stars rd, forks = d_forks rd,
      language = d_language rd, last_updated = d_updated_at rd, last_synced = now,
      metadata = d_custom_metadata rd\<rparr>"

text \<open>
  \<^verbatim>\<open>repo_data.get("custom_metadata", {}).get("tech_stack")\<close>, and, when that is truthy, the
  values the loop \<^verbatim>\<open>for tech in repo_data["custom_metadata"]["tech_stack"]\<close> runs over.
\<close>

definition tech_stack_entries :: "json \<Rightarrow> py_error + json list" where
  "tech_stack_entries cm =
     (case py_get cm ''tech_stack'' of
        Inl e \<Rightarrow> Inl e
      | Inr ts \<Rightarrow> if truthy ts then py_iter ts else Inr [])"

text \<open>
  \<^verbatim>\<open>update_technology\<close> is annotated \<^verbatim>\<open>name: str\<close>, but the loop over \<^verbatim>\<open>tech_stack\<close>
  hands it whatever the metadata file holds. \<open>sqlite_param\<close> is what the \<^verbatim>\<open>sqlite3\<close>
  module makes of such a value for the \<^verbatim>\<open>TEXT\<close> column \<^verbatim>\<open>name\<close>: text as it is, an
  integer (a \<^verbatim>\<open>bool\<close> is one) in decimal, \<^verbatim>\<open>None\<close> as \<^verbatim>\<open>NULL\<close>, and no binding at all
  for a list, a dict or an integer outside 64 bits.
\<close>

datatype sql_param = SqlText string | SqlNull | Unbindable

function decimal_nat :: "nat \<Rightarrow> string" where
  "decimal_nat n =
     (if n < 10 then [''0123456789'' ! n]
      else decimal_nat (n div 10) @ [''0123456789'' ! (n mod 10)])"
  by pat_completeness auto
termination
  by (relation "measure (\<lambda>n. n)") auto

declare decimal_nat.simps [simp del]

definition decimal :: "int \<Rightarrow> string" where
  "decimal i = (if i < 0 then CHR ''-'' # decimal_nat (nat (- i)) else decimal_nat (nat i))"

fun sqlite_param :: "json \<Rightarrow> sql_param" where
  "sqlite_param (JStr s) = SqlText s"
| "sqlite_param (JInt n) =
     (if - (2 ^ 63) \<le> n \<and> n < 2 ^ 63 then SqlText (decimal n) else Unbindable)"
| "sqlite_param (JBool b) = SqlText (if b then ''1'' else ''0'')"
| "sqlite_param JNull = SqlNull"
| "sqlite_param (JArr xs) = Unbindable"
| "sqlite_param (JObj kvs) = Unbindable"

text \<open>
  One call \<^verbatim>\<open>update_technology(tech)\<close> from the loop. A value that cannot be bound raises
  at the \<^verbatim>\<open>SELECT\<close>, before any statement runs. \<^verbatim>\<open>NULL\<close> matches no row, so the
  \<^verbatim>\<open>INSERT\<close> is tried: it takes the write lock and then fails on \<^verbatim>\<open>NOT NULL\<close>. Neither
  error is an \<^verbatim>\<open>OperationalError\<close>: \<^verbatim>\<open>except Exception\<close> prints it and returns, the table
  stays as it is, and \<^verbatim>\<open>conn.close()\<close> is not reached. After the failed \<^verbatim>\<open>INSERT\<close> the
  connection is inside a write transaction: it is left open with the write lock.
\<close>

definition update_technology_entry :: "json \<Rightarrow> world \<Rightarrow> world" where
  "update_technology_entry tech w =
     (case sqlite_param tech of
        SqlText n \<Rightarrow> update_technology n w
      | SqlNull \<Rightarrow>
          snd (retry_loop (\<lambda>w1. True) (\<lambda>w1. ((), w1\<lparr>left_open := True\<rparr>)) () 0 1.0 w)
      | Unbindable \<Rightarrow> snd (next_fault (w\<lparr>attempts := attempts w + 1\<rparr>)))"

text \<open>
  The body of the \<^verbatim>\<open>try\<close> in \<^verbatim>\<open>add_repository\<close> once the connection is there: the
  \<^verbatim>\<open>SELECT\<close> for an existing row, the \<^verbatim>\<open>INSERT\<close> and \<^verbatim>\<open>commit\<close>, then the tally
  updates. An exception of the part after the commit reaches \<^verbatim>\<open>except Exception\<close>, which
  returns \<^verbatim>\<open>False\<close>. The attempt writes when the \<^verbatim>\<open>SELECT\<close> found no row.
\<close>

definition add_repository_body :: "string \<Rightarrow> string \<Rightarrow> repo_data \<Rightarrow> world \<Rightarrow> bool \<times> world" where
  "add_repository_body now url rd w =
     (if \<exists>r \<in> set (repositories w). repo_url r = url then (False, w)
      else
        let w2 = w\<lparr>repositories := repositories w @ [new_row (next_repo_id w) now url rd],
                   next_repo_id := next_repo_id w + 1\<rparr>;
            w3 = (case d_language rd of
                    None \<Rightarrow> w2
                  | Some l \<Rightarrow> if l \<noteq> [] then update_technology l w2 else w2)
        in case tech_stack_entries (d_custom_metadata rd) of
             Inl e \<Rightarrow> (False, w3)
           | Inr techs \<Rightarrow> (True, foldl (\<lambda>w' tech. update_technology_entry tech w') w3 techs))"

definition add_repository :: "string \<Rightarrow> string \<Rightarrow> repo_data \<Rightarrow> world \<Rightarrow> bool \<times> world" where
  "add_repository now url rd w =
     retry_loop (\<lambda>w1. \<not> (\<exists>r \<in> set (repositories w1). repo_url r = url))
       (add_repository_body now url rd) False 0 1.0 w"

text \<open>
  \<^verbatim>\<open>update_repository\<close> has a single \<^verbatim>\<open>try\<close> and no loop: every exception, a locked
  database included, returns \<^verbatim>\<open>False\<close>. A failed connection is \<^verbatim>\<open>None.cursor()\<close>, an
  exception like the others. The \<^verbatim>\<open>UPDATE\<close> is reached when the \<^verbatim>\<open>SELECT\<close> found the row.
\<close>

definition update_repository :: "string \<Rightarrow> string \<Rightarrow> repo_data \<Rightarrow> world \<Rightarrow> bool \<times> world" where
  "update_repository now url rd w =
     (case attempt_fault (\<lambda>w1. \<exists>r \<in> set (repositories w1). repo_url r = url)
             (w\<lparr>attempts := attempts w + 1\<rparr>) of
        (NoFault, w1) \<Rightarrow>
          if \<not> (\<exists>r \<in> set (repositories w1). repo_url r = url) then (False, w1)
          else (True, w1\<lparr>repositories :=
                  map (\<lambda>r. if repo_url r = url then overwrite now rd r else r) (repositories w1)\<rparr>)
      | (f, w1) \<Rightarrow> (False, w1))"

text \<open>
  \<^verbatim>\<open>delete_repository\<close>: the \<^verbatim>\<open>SELECT language\<close>, the call of
  \<^verbatim>\<open>decrease_technology_count\<close> (which connects and commits by itself), and then the
  \<^verbatim>\<open>DELETE\<close> with its commit, which can fail after the tally has changed: it takes the next
  fault of the script, and it needs the write lock.
\<close>

definition delete_repository :: "string \<Rightarrow> world \<Rightarrow> bool \<times> world" where
  "delete_repository url w =
     (case next_fault (w\<lparr>attempts := attempts w + 1\<rparr>) of
        (NoFault, w1) \<Rightarrow>
          (case filter (\<lambda>r. repo_url r = url) (repositories w1) of
             [] \<Rightarrow> (False, w1)
           | repo # _ \<Rightarrow>
               let w2 = (case language repo of
                           None \<Rightarrow> w1
                         | Some l \<Rightarrow> if l \<noteq> [] then decrease_technology_count l w1 else w1)
               in (case attempt_fault (\<lambda>w3. True) w2 of
                     (NoFault, w3) \<Rightarrow>
                       (True, w3\<lparr>repositories :=
                                 filter (\<lambda>r. repo_url r \<noteq> url) (repositories w3)\<rparr>)
                   | (f, w3) \<Rightarrow> (False, w3)))
      | (f, w1) \<Rightarrow> (False, w1))"

subsection \<open>The caller (app\_fixed.py)\<close>

text \<open>
  The first lines of \<^verbatim>\<open>get_repo_info\<close>:
  \<^verbatim>\<open>
  repo_url = repo_url.strip().rstrip('/')
  if repo_url.endswith('.git'):
      repo_url = repo_url[:-4]
  \<close>
  They rebind the function's own parameter. \<open>py_whitespace\<close> lists the characters
  \<^verbatim>\<open>str.strip()\<close> removes, those for which \<^verbatim>\<open>str.isspace\<close> holds, among the code points
  below 256: the ASCII ones, U+0085 and U+00A0.
\<close>

definition py_whitespace :: "char list" where
  "py_whitespace =
     [CHR 0x09, CHR 0x0A, CHR 0x0B, CHR 0x0C, CHR 0x0D, CHR 0x1C, CHR 0x1D, CHR 0x1E, CHR 0x1F,
      CHR '' '', CHR 0x85, CHR 0xA0]"

definition strip :: "string \<Rightarrow> string" where
  "strip s =
     rev (dropWhile (\<lambda>c. c \<in> set py_whitespace)
       (rev (dropWhile (\<lambda>c. c \<in> set py_whitespace) s)))"

definition rstrip_slash :: "string \<Rightarrow> string" where
  "rstrip_slash s = rev (dropWhile (\<lambda>c. c = CHR ''/'') (rev s))"

definition endswith :: "string \<Rightarrow> string \<Rightarrow> bool" where
  "endswith s suffix \<longleftrightarrow> length suffix \<le> length s \<and> drop (length s - length suffix) s = suffix"

definition normalize_repo_url :: "string \<Rightarrow> string" where
  "normalize_repo_url url =
     (let u = rstrip_slash (strip url)
      in if endswith u ''.git'' then take (length u - 4) u else u)"

text \<open>
  The branch \<^verbatim>\<open>if add_button and new_repo_url:\<close> of \<^verbatim>\<open>main\<close>:
  \<^verbatim>\<open>
  repo_data = get_repo_info(new_repo_url)
  if repo_data:
      if db.add_repository(new_repo_url, repo_data): ...
  \<close>
  \<^verbatim>\<open>get_repo_info\<close> asks GitHub and is a parameter; it returns \<^verbatim>\<open>None\<close> or the data.
  The result is what \<^verbatim>\<open>add_repository\<close> returned, if it was called.
\<close>

definition main_add ::
  "(string \<Rightarrow> repo_data option) \<Rightarrow> string \<Rightarrow> string \<Rightarrow> world \<Rightarrow> bool option \<times> world" where
  "main_add get_repo_info now new_repo_url w =
     (if new_repo_url \<noteq> [] then
        (case get_repo_info new_repo_url of
           None \<Rightarrow> (None, w)
         | Some repo_data \<Rightarrow>
             (case add_repository now new_repo_url repo_data w of (b, w') \<Rightarrow> (Some b, w')))
      else (None, w))"

section \<open>The Deta backend (cloud\_database.py)\<close>

text \<open>
  A Deta Base is a list of items, in the order in which \<^verbatim>\<open>fetch().items\<close> returns them;
  \<open>repo_id\<close> and \<open>tech_id\<close> hold the item's \<^verbatim>\<open>key\<close>, which the service generates on a
  \<^verbatim>\<open>put\<close> without key. Every function is one \<^verbatim>\<open>try\<close> with \<^verbatim>\<open>except Exception\<close>.
  Whether a request to the service raises is an input of the model, \<open>outages\<close>, one entry
  per request (a Base that cannot be opened behaves as a first request that raises); once
  the script is used up every request goes through.
\<close>

record cloud =
  repo_items :: "repo_row list"
  tech_items :: "(json, int) tech_row list"
  next_key :: nat
  outages :: "bool list"

definition request :: "cloud \<Rightarrow> bool \<times> cloud" where
  "request c =
     (case outages c of
        [] \<Rightarrow> (False, c)
      | b # bs \<Rightarrow> (b, c\<lparr>outages := bs\<rparr>))"


definition cloud_update_technology :: "json \<Rightarrow> cloud \<Rightarrow> cloud" where
  "cloud_update_technology n c =
     (case request c of
        (True, c1) \<Rightarrow> c1
      | (False, c1) \<Rightarrow>
          (case filter (\<lambda>t. tech_name t = n) (tech_items c1) of
             tech # _ \<Rightarrow>
               (case request c1 of
                  (True, c2) \<Rightarrow> c2
                | (False, c2) \<Rightarrow>
                    c2\<lparr>tech_items :=
                         map (\<lambda>t. if tech_id t = tech_id tech
                                   then t\<lparr>tech_count := tech_count tech + 1\<rparr> else t)
                           (tech_items c2)\<rparr>)
           | [] \<Rightarrow>
               (case request c1 of
                  (True, c2) \<Rightarrow> c2
                | (False, c2) \<Rightarrow>
                    c2\<lparr>tech_items :=
                         tech_items c2 @ [\<lparr>tech_id = next_key c2, tech_name = n, tech_count = 1\<rparr>],
                       next_key := next_key c2 + 1\<rparr>)))"

definition cloud_decrease_technology_count :: "json \<Rightarrow> cloud \<Rightarrow> cloud" where
  "cloud_decrease_technology_count n c =
     (case request c of
        (True, c1) \<Rightarrow> c1
      | (False, c1) \<Rightarrow>
          (case filter (\<lambda>t. tech_name t = n) (tech_items c1) of
             [] \<Rightarrow> c1
           | tech # _ \<Rightarrow>
               (case request c1 of
                  (True, c2) \<Rightarrow> c2
                | (False, c2) \<Rightarrow>
                    if tech_count tech \<le> 1
                    then c2\<lparr>tech_items :=
                              filter (\<lambda>t. tech_id t \<noteq> tech_id tech) (tech_items c2)\<rparr>
                    else c2\<lparr>tech_items :=
                              map (\<lambda>t. if tech_id t = tech_id tech
                                        then t\<lparr>tech_count := tech_count tech - 1\<rparr> else t)
                                (tech_items c2)\<rparr>)))"


definition cloud_add_repository :: "string \<Rightarrow> string \<Rightarrow> repo_data \<Rightarrow> cloud \<Rightarrow> bool \<times> cloud" where
  "cloud_add_repository now url rd c =
     (case request c of
        (True, c1) \<Rightarrow> (False, c1)
      | (False, c1) \<Rightarrow>
          if \<exists>r \<in> set (repo_items c1). repo_url r = url then (False, c1)
          else
            (case request c1 of
               (True, c2) \<Rightarrow> (False, c2)
             | (False, c2) \<Rightarrow>
                 let c3 = c2\<lparr>repo_items := repo_items c2 @ [new_row (next_key c2) now url rd],
                            next_key := next_key c2 + 1\<rparr>;
                     c4 = (case d_language rd of
                             None \<Rightarrow> c3
                           | Some l \<Rightarrow> if l \<noteq> [] then cloud_update_technology (JStr l) c3 else c3)
                 in case tech_stack_entries (d_custom_metadata rd) of
                      Inl e \<Rightarrow> (False, c4)
                    | Inr techs \<Rightarrow>
                        (True, foldl (\<lambda>c' tech. cloud_update_technology tech c') c4 techs)))"

text \<open>\<^verbatim>\<open>repo_db.put(repo_data_to_store, existing[0]["key"])\<close> replaces the item of that key.\<close>

definition cloud_update_repository :: "string \<Rightarrow> string \<Rightarrow> repo_data \<Rightarrow> cloud \<Rightarrow> bool \<times> cloud" where
  "cloud_update_repository now url rd c =
     (case request c of
        (True, c1) \<Rightarrow> (False, c1)
      | (False, c1) \<Rightarrow>
          (case filter (\<lambda>r. repo_url r = url) (repo_items c1) of
             [] \<Rightarrow> (False, c1)
           | existing # _ \<Rightarrow>
               (case request c1 of
                  (True, c2) \<Rightarrow> (False, c2)
                | (False, c2) \<Rightarrow>
                    (True, c2\<lparr>repo_items :=
                               map (\<lambda>r. if repo_id r = repo_id existing
                                         then overwrite now rd (r\<lparr>repo_url := url\<rparr>) else r)
                                 (repo_items c2)\<rparr>))))"

section \<open>The Firestore backend (firebase\_database.py)\<close>

text \<open>
  A collection is a list of documents, in the order in which \<^verbatim>\<open>stream()\<close> returns them;
  \<open>repo_id\<close> and \<open>tech_id\<close> hold the document id. A repository document may carry a field
  \<^verbatim>\<open>id\<close> of its own (\<open>id_field\<close>); the fields \<^verbatim>\<open>name\<close> and \<^verbatim>\<open>count\<close> of a technology
  document are read with \<^verbatim>\<open>.get\<close> and a default, so they may be missing.
\<close>

record fb_repo_doc = repo_row +
  id_field :: "nat option"

record firebase =
  fb_repositories :: "fb_repo_doc list"
  fb_technologies :: "(json option, int option) tech_row list"
  fb_next_id :: nat
  fb_outages :: "bool list"

definition fb_request :: "firebase \<Rightarrow> bool \<times> firebase" where
  "fb_request f =
     (case fb_outages f of
        [] \<Rightarrow> (False, f)
      | b # bs \<Rightarrow> (b, f\<lparr>fb_outages := bs\<rparr>))"

text \<open>\<^verbatim>\<open>tech.get('count', 0)\<close>\<close>

definition get_count :: "(json option, int option) tech_row \<Rightarrow> int" where
  "get_count tech = (case tech_count tech of None \<Rightarrow> 0 | Some k \<Rightarrow> k)"

definition firebase_update_technology :: "json \<Rightarrow> firebase \<Rightarrow> firebase" where
  "firebase_update_technology n f =
     (case fb_request f of
        (True, f1) \<Rightarrow> f1
      | (False, f1) \<Rightarrow>
          (case filter (\<lambda>t. tech_name t = Some n) (fb_technologies f1) of
             doc # _ \<Rightarrow>
               (case fb_request f1 of
                  (True, f2) \<Rightarrow> f2
                | (False, f2) \<Rightarrow>
                    f2\<lparr>fb_technologies :=
                         map (\<lambda>t. if tech_id t = tech_id doc
                                   then t\<lparr>tech_count := Some (get_count doc + 1)\<rparr> else t)
                           (fb_technologies f2)\<rparr>)
           | [] \<Rightarrow>
               (case fb_request f1 of
                  (True, f2) \<Rightarrow> f2
                | (False, f2) \<Rightarrow>
                    f2\<lparr>fb_technologies :=
                         fb_technologies f2 @
                           [\<lparr>tech_id = fb_next_id f2, tech_name = Some n, tech_count = Some 1\<rparr>],
                       fb_next_id := fb_next_id f2 + 1\<rparr>)))"

definition firebase_decrease_technology_count :: "json \<Rightarrow> firebase \<Rightarrow> firebase" where
  "firebase_decrease_technology_count n f =
     (case fb_request f of
        (True, f1) \<Rightarrow> f1
      | (False, f1) \<Rightarrow>
          (case filter (\<lambda>t. tech_name t = Some n) (fb_technologies f1) of
             [] \<Rightarrow> f1
           | doc # _ \<Rightarrow>
               (let current_count = get_count doc
                in case fb_request f1 of
                     (True, f2) \<Rightarrow> f2
                   | (False, f2) \<Rightarrow>
                       if current_count \<le> 1
                       then f2\<lparr>fb_technologies :=
                                 filter (\<lambda>t. tech_id t \<noteq> tech_id doc) (fb_technologies f2)\<rparr>
                       else f2\<lparr>fb_technologies :=
                                 map (\<lambda>t. if tech_id t = tech_id doc
                                           then t\<lparr>tech_count := Some (current_count - 1)\<rparr> else t)
                                   (fb_technologies f2)\<rparr>)))"


text \<open>
  \<^verbatim>\<open>update_repository\<close>: the first document with the url; its fields are overwritten by
  \<^verbatim>\<open>document(doc_id).update(...)\<close>, with \<^verbatim>\<open>"id": existing_data.get("id", doc_id)\<close>.
\<close>

definition firebase_update_repository ::
  "string \<Rightarrow> string \<Rightarrow> repo_data \<Rightarrow> firebase \<Rightarrow> bool \<times> firebase" where
  "firebase_update_repository now url rd f =
     (case fb_request f of
        (True, f1) \<Rightarrow> (False, f1)
      | (False, f1) \<Rightarrow>
          (case filter (\<lambda>d. repo_url d = url) (fb_repositories f1) of
             [] \<Rightarrow> (False, f1)
           | existing # _ \<Rightarrow>
               (case fb_request f1 of
                  (True, f2) \<Rightarrow> (False, f2)
                | (False, f2) \<Rightarrow>
                    (True, f2\<lparr>fb_repositories :=
                               map (\<lambda>d. if repo_id d = repo_id existing
                                         then overwrite now rd
                                                (d\<lparr>repo_url := url,
                                                   id_field := Some (case id_field existing of
                                                                       None \<Rightarrow> repo_id existing
                                                                     | Some i \<Rightarrow> i)\<rparr>)
                                         else d)
                                 (fb_repositories f2)\<rparr>))))"

section \<open>The tally as the specification describes it\<close>

text \<open>
  A sequence of tally operations, and the count the specification gives a name after it:
  created at 1 on the first reference, one more for each further reference, one less for
  each removed reference, and gone (zero) when it would drop to zero or below.
\<close>

datatype tally_op = Increment string | Decrement string

definition logical_step :: "string \<Rightarrow> int \<Rightarrow> tally_op \<Rightarrow> int" where
  "logical_step n k op =
     (case op of
        Increment m \<Rightarrow> if m = n then k + 1 else k
      | Decrement m \<Rightarrow> if m = n then (if k - 1 \<le> 0 then 0 else k - 1) else k)"

definition logical_count :: "string \<Rightarrow> tally_op list \<Rightarrow> int" where
  "logical_count n ops = foldl (logical_step n) 0 ops"

definition expected_entry :: "string \<Rightarrow> tally_op list \<Rightarrow> int option" where
  "expected_entry n ops = (if logical_count n ops \<le> 0 then None else Some (logical_count n ops))"

text \<open>The stored count of a name: that of the first row carrying it, if any.\<close>

definition count_of :: "'n \<Rightarrow> ('n, 'c) tech_row list \<Rightarrow> 'c option" where
  "count_of n rows = map_option tech_count (find (\<lambda>r. tech_name r = n) rows)"

fun sqlite_apply :: "tally_op \<Rightarrow> world \<Rightarrow> world" where
  "sqlite_apply (Increment n) w = update_technology n w"
| "sqlite_apply (Decrement n) w = decrease_technology_count n w"

fun cloud_apply :: "tally_op \<Rightarrow> cloud \<Rightarrow> cloud" where
  "cloud_apply (Increment n) c = cloud_update_technology (JStr n) c"
| "cloud_apply (Decrement n) c = cloud_decrease_technology_count (JStr n) c"

fun firebase_apply :: "tally_op \<Rightarrow> firebase \<Rightarrow> firebase" where
  "firebase_apply (Increment n) f = firebase_update_technology (JStr n) f"
| "firebase_apply (Decrement n) f = firebase_decrease_technology_count (JStr n) f"

text \<open>The three stores when new, with the faults that the operations will meet; in the
  SQLite store no connection is left open.\<close>

definition empty_world :: "fault list \<Rightarrow> world" where
  "empty_world fs =
     \<lparr>repositories = [], technologies = [], next_repo_id = 1, next_tech_id = 1,
      faults = fs, attempts = 0, sleeps = [], left_open = False, collector = []\<rparr>"

definition empty_cloud :: "bool list \<Rightarrow> cloud" where
  "empty_cloud bs = \<lparr>repo_items = [], tech_items = [], next_key = 0, outages = bs\<rparr>"

definition empty_firebase :: "bool list \<Rightarrow> firebase" where
  "empty_firebase bs =
     \<lparr>fb_repositories = [], fb_technologies = [], fb_next_id = 0, fb_outages = bs\<rparr>"

section \<open>Auxiliary notions for the statements\<close>

text \<open>
  Whether the retry loop of an operation that writes, run on \<open>w\<close>, gets a connection and
  the write lock, so that its statements take effect, and the world in which they then
  do (or the loop gave up); and the same for the loop of \<^verbatim>\<open>get_technology_stats\<close>, which
  only reads.
\<close>

definition gets_through :: "world \<Rightarrow> bool \<times> world" where
  "gets_through w = retry_loop (\<lambda>w1. True) (\<lambda>w1. (True, w1)) False 0 1.0 w"


text \<open>Data as \<^verbatim>\<open>get_repo_info\<close> would return it, for the examples.\<close>

definition sample_data :: "string option \<Rightarrow> json \<Rightarrow> repo_data" where
  "sample_data lang cm =
     \<lparr>d_name = ''A'', d_owner_login = ''octocat'', d_description = None, d_stars = 3,
      d_forks = 1, d_language = lang, d_updated_at = ''2024-05-01'',
      d_custom_metadata = cm\<rparr>"

text \<open>States for the examples: a tally with rows of count zero and below and two locks
  ahead; stores holding one repository; a store whose first statement will find the
  database locked.\<close>

definition stale_world :: world where
  "stale_world =
     \<lparr>repositories = [],
      technologies =
        [\<lparr>tech_id = 1, tech_name = ''Go'', tech_count = 0\<rparr>,
         \<lparr>tech_id = 2, tech_name = ''Rust'', tech_count = 2\<rparr>,
         \<lparr>tech_id = 3, tech_name = ''C'', tech_count = - 1\<rparr>],
      next_repo_id = 1, next_tech_id = 4, faults = [Locked, Locked], attempts = 0,
      sleeps = [], left_open = False, collector = []\<rparr>"


definition go_docker_data :: repo_data where
  "go_docker_data =
     sample_data (Some ''Go'') (JObj [(''tech_stack'', JArr [JStr ''Go'', JStr ''Docker''])])"

text \<open>Data whose metadata file says \<^verbatim>\<open>{"tech_stack": 5}\<close>, and data whose tech stack
  starts with a \<^verbatim>\<open>null\<close>.\<close>

definition number_stack_data :: repo_data where
  "number_stack_data = sample_data (Some ''Go'') (JObj [(''tech_stack'', JInt 5)])"

definition null_stack_data :: repo_data where
  "null_stack_data =
     sample_data None (JObj [(''tech_stack'', JArr [JNull, JStr ''Go'', JStr ''Docker''])])"




text \<open>
  What an increment and a decrement that go through do to the list of rows, written once
  for the comparison of the backends: \<open>inc_list\<close> is the body of \<^verbatim>\<open>update_technology\<close>,
  \<open>dec_list\<close> the two statements of \<^verbatim>\<open>decrease_technology_count\<close> of database.py.
\<close>

definition inc_list :: "'n \<Rightarrow> nat \<Rightarrow> ('n, int) tech_row list \<Rightarrow> ('n, int) tech_row list" where
  "inc_list n i rows =
     (if \<exists>r \<in> set rows. tech_name r = n
      then map (\<lambda>r. if tech_name r = n then r\<lparr>tech_count := tech_count r + 1\<rparr> else r) rows
      else rows @ [\<lparr>tech_id = i, tech_name = n, tech_count = 1\<rparr>])"

definition dec_list :: "'n \<Rightarrow> ('n, int) tech_row list \<Rightarrow> ('n, int) tech_row list" where
  "dec_list n rows =
     filter (\<lambda>r. \<not> tech_count r \<le> 0)
       (map (\<lambda>r. if tech_name r = n then r\<lparr>tech_count := tech_count r - 1\<rparr> else r) rows)"

text \<open>The invariant of the tally: one row per name, every count at least 1.\<close>

definition tally_inv :: "('n, int) tech_row list \<Rightarrow> bool" where
  "tally_inv rows \<longleftrightarrow> distinct (map tech_name rows) \<and> list_all (\<lambda>r. 1 \<le> tech_count r) rows"

text \<open>The count stored for a name, zero when there is no row.\<close>

definition stored :: "'n \<Rightarrow> ('n, int) tech_row list \<Rightarrow> int" where
  "stored n rows = (case count_of n rows of None \<Rightarrow> 0 | Some k \<Rightarrow> k)"

text \<open>A Deta item as the Firestore document with the same content.\<close>

definition as_doc :: "(json, int) tech_row \<Rightarrow> (json option, int option) tech_row" where
  "as_doc t = \<lparr>tech_id = tech_id t, tech_name = Some (tech_name t), tech_count = Some (tech_count t)\<rparr>"

text \<open>The keys of a Deta Base are distinct, and a newly generated key is not in use.\<close>

definition cloud_inv :: "cloud \<Rightarrow> bool" where
  "cloud_inv c \<longleftrightarrow>
     tally_inv (tech_items c) \<and> distinct (map tech_id (tech_items c)) \<and>
     list_all (\<lambda>t. tech_id t < next_key c) (tech_items c)"

text \<open>A Firestore state that holds the same technologies as a Deta state and will meet
  the same outages.\<close>

definition mirrors :: "firebase \<Rightarrow> cloud \<Rightarrow> bool" where
  "mirrors f c \<longleftrightarrow>
     fb_technologies f = map as_doc (tech_items c) \<and> fb_next_id f = next_key c \<and>
     fb_outages f = outages c"

text \<open>A stored row carries the data of \<open>rd\<close>, synced at \<open>now\<close>.\<close>

definition holds_data :: "string \<Rightarrow> repo_data \<Rightarrow> 'a repo_row_scheme \<Rightarrow> bool" where
  "holds_data now rd r \<longleftrightarrow>
     name r = d_name rd \<and> owner r = d_owner_login rd \<and> description r = d_description rd \<and>
     stars r = d_stars rd \<and> forks r = d_forks rd \<and> language r = d_language rd \<and>
     last_updated r = d_updated_at rd \<and> last_synced r = now \<and>
     metadata r = d_custom_metadata rd"

text \<open>The id under which \<^verbatim>\<open>get_repository\<close> of the Firestore backend shows a document:
  \<^verbatim>\<open>if "id" not in repo: repo["id"] = doc.id\<close>.\<close>

definition shown_id :: "fb_repo_doc \<Rightarrow> nat" where
  "shown_id d = (case id_field d of None \<Rightarrow> repo_id d | Some i \<Rightarrow> i)"

definition old_row :: repo_row where
  "old_row = new_row 7 ''2024-01-01 09:00:00'' ''u'' (sample_data (Some ''Go'') (JObj []))"

definition old_doc :: fb_repo_doc where
  "old_doc = repo_row.extend old_row \<lparr>id_field = None\<rparr>"

definition stored_world :: world where
  "stored_world =
     \<lparr>repositories = [old_row],
      technologies = [\<lparr>tech_id = 1, tech_name = ''Go'', tech_count = 1\<rparr>],
      next_repo_id = 8, next_tech_id = 2, faults = [], attempts = 0, sleeps = [],
      left_open = False, collector = []\<rparr>"

definition stored_cloud :: cloud where
  "stored_cloud =
     \<lparr>repo_items = [old_row],
      tech_items = [\<lparr>tech_id = 8, tech_name = JStr ''Go'', tech_count = 1\<rparr>],
      next_key = 9, outages = []\<rparr>"

definition stored_firebase :: firebase where
  "stored_firebase =
     \<lparr>fb_repositories = [old_doc],
      fb_technologies = [\<lparr>tech_id = 8, tech_name = Some (JStr ''Go''), tech_count = Some 1\<rparr>],
      fb_next_id = 9, fb_outages = []\<rparr>"

definition locked_once_world :: world where
  "locked_once_world =
     \<lparr>repositories = [new_row 1 ''2024-05-01 10:00:00'' ''u'' (sample_data (Some ''Go'') (JObj []))],
      technologies = [\<lparr>tech_id = 1, tech_name = ''Go'', tech_count = 1\<rparr>],
      next_repo_id = 2, next_tech_id = 2, faults = [Locked], attempts = 0, sleeps = [],
      left_open = False, collector = []\<rparr>"

section \<open>The retry loop\<close>

lemma attempt_fault_tables:
  "repositories (snd (attempt_fault wr w)) = repositories w"
  "technologies (snd (attempt_fault wr w)) = technologies w"
  "next_repo_id (snd (attempt_fault wr w)) = next_repo_id w"
  "next_tech_id (snd (attempt_fault wr w)) = next_tech_id w"
  "attempts (snd (attempt_fault wr w)) = attempts w"
  "sleeps (snd (attempt_fault wr w)) = sleeps w"
  by (auto simp: attempt_fault_def next_fault_def take_write_lock_def
      split: list.splits fault.splits)

lemma retry_loop_split:
  "retry_loop wr body failed a d w =
     (case retry_loop wr (\<lambda>w1. (True, w1)) False a d w of
        (True, w') \<Rightarrow> body w' | (False, w') \<Rightarrow> (failed, w'))"
proof (induction wr body failed a d w rule: retry_loop.induct)
  case (1 wr body failed attempt retry_delay w)
  show ?case
    apply (subst retry_loop.simps)
    apply (subst (2) retry_loop.simps)
    using 1
    apply (auto split: prod.splits fault.splits)
    done
qed

lemma retry_loop_tables:
  "repositories (snd (retry_loop wr (\<lambda>w1. (b, w1)) failed a d w)) = repositories w \<and>
   technologies (snd (retry_loop wr (\<lambda>w1. (b, w1)) failed a d w)) = technologies w \<and>
   next_repo_id (snd (retry_loop wr (\<lambda>w1. (b, w1)) failed a d w)) = next_repo_id w \<and>
   next_tech_id (snd (retry_loop wr (\<lambda>w1. (b, w1)) failed a d w)) = next_tech_id w"
proof (induction wr "\<lambda>w1::world. (b, w1)" failed a d w rule: retry_loop.induct)
  case (1 wr failed attempt retry_delay w)
  obtain f w1 where af: "attempt_fault wr (w\<lparr>attempts := attempts w + 1\<rparr>) = (f, w1)"
    by (cases "attempt_fault wr (w\<lparr>attempts := attempts w + 1\<rparr>)")
  have t: "repositories w1 = repositories w" "technologies w1 = technologies w"
    "next_repo_id w1 = next_repo_id w" "next_tech_id w1 = next_tech_id w"
    using attempt_fault_tables [of wr "w\<lparr>attempts := attempts w + 1\<rparr>"] af by simp_all
  show ?case
    apply (subst retry_loop.simps)
    apply (subst (2) retry_loop.simps)
    apply (subst (3) retry_loop.simps)
    apply (subst (4) retry_loop.simps)
    using 1 af t
    apply (auto split: fault.splits)
    done
qed

lemma retry_loop_attempts:
  "attempts (snd (retry_loop wr (\<lambda>w1. (b, w1)) failed a d w)) \<le> attempts w + (max_retries - a)"
proof (induction wr "\<lambda>w1::world. (b, w1)" failed a d w rule: retry_loop.induct)
  case (1 wr failed attempt retry_delay w)
  obtain f w1 where af: "attempt_fault wr (w\<lparr>attempts := attempts w + 1\<rparr>) = (f, w1)"
    by (cases "attempt_fault wr (w\<lparr>attempts := attempts w + 1\<rparr>)")
  have t: "attempts w1 = attempts w + 1"
    using attempt_fault_tables(5) [of wr "w\<lparr>attempts := attempts w + 1\<rparr>"] af by simp
  show ?case
    apply (subst retry_loop.simps)
    using 1 af t
    apply (auto split: fault.splits simp: max_retries_def)
    done
qed

lemma retry_all_locked:
  "faults w = Locked # Locked # Locked # Locked # Locked # fs \<Longrightarrow>
   retry_loop wr body failed 0 d w =
     (failed, w\<lparr>faults := fs, attempts := attempts w + 5,
                sleeps := sleeps w @ [d, d * 1.5, d * 1.5 * 1.5, d * 1.5 * 1.5 * 1.5]\<rparr>)"
  by (simp add: retry_loop.simps attempt_fault_def next_fault_def max_retries_def)

lemma retry_other_fault:
  "faults w = f # fs \<Longrightarrow> f \<noteq> NoFault \<Longrightarrow> f \<noteq> Locked \<Longrightarrow>
   retry_loop wr body failed 0 d w = (failed, w\<lparr>faults := fs, attempts := attempts w + 1\<rparr>)"
  by (cases f) (simp_all add: retry_loop.simps attempt_fault_def next_fault_def max_retries_def)

lemma retry_no_fault:
  "faults w = [] \<Longrightarrow> \<not> left_open w \<Longrightarrow>
   retry_loop wr body failed 0 d w = body (w\<lparr>attempts := attempts w + 1\<rparr>)"
  by (simp add: retry_loop.simps attempt_fault_def next_fault_def take_write_lock_def
      max_retries_def)

lemma retry_read_no_fault:
  "faults w = [] \<Longrightarrow>
   retry_loop (\<lambda>w1. False) body failed 0 d w = body (w\<lparr>attempts := attempts w + 1\<rparr>)"
  by (simp add: retry_loop.simps attempt_fault_def next_fault_def max_retries_def)

lemma retry_first_ok:
  "faults w = NoFault # fs \<Longrightarrow> \<not> left_open w \<Longrightarrow>
   retry_loop wr body failed 0 d w = body (w\<lparr>attempts := attempts w + 1, faults := fs\<rparr>)"
  by (simp add: retry_loop.simps attempt_fault_def next_fault_def take_write_lock_def
      max_retries_def)

text \<open>While a connection left open holds the write lock and the collector has not run, an
  operation that writes makes its five attempts and gives up.\<close>

lemma retry_left_open:
  "faults w = [] \<Longrightarrow> left_open w \<Longrightarrow> collector w = [] \<Longrightarrow>
   retry_loop (\<lambda>w1. True) body failed 0 d w =
     (failed, w\<lparr>attempts := attempts w + 5,
                sleeps := sleeps w @ [d, d * 1.5, d * 1.5 * 1.5, d * 1.5 * 1.5 * 1.5]\<rparr>)"
  by (simp add: retry_loop.simps attempt_fault_def next_fault_def take_write_lock_def
      max_retries_def)

section \<open>The purge on decrement (SQLite)\<close>

text \<open>
  Claim C10. In the SQLite backend a decrement that gets through (its retry loop reaches
  the two statements) lowers the named entry and then deletes every row whose count is
  zero or below, whatever its name: afterwards every stored technology has a count of at
  least 1, also when rows of count zero or below were there before.
\<close>

theorem decrease_purges_nonpositive_rows:
  "fst (gets_through w) \<Longrightarrow>
     technologies (decrease_technology_count n w) =
       filter (\<lambda>r. 0 < tech_count r)
         (map (\<lambda>r. if tech_name r = n then r\<lparr>tech_count := tech_count r - 1\<rparr> else r)
            (technologies w)) \<and>
     list_all (\<lambda>r. 1 \<le> tech_count r) (technologies (decrease_technology_count n w))"
proof -
  assume g: "fst (gets_through w)"
  obtain w' where w': "gets_through w = (True, w')"
    using g by (cases "gets_through w") auto
  have t: "technologies w' = technologies w"
    using retry_loop_tables [of "\<lambda>w1. True" True False 0 "1.0" w] w'
    by (simp add: gets_through_def)
  have d: "decrease_technology_count n w = decrement_rows n w'"
    using w' unfolding decrease_technology_count_def gets_through_def
    by (subst retry_loop_split) simp
  have e: "technologies (decrement_rows n w') =
       filter (\<lambda>r. 0 < tech_count r)
         (map (\<lambda>r. if tech_name r = n then r\<lparr>tech_count := tech_count r - 1\<rparr> else r)
            (technologies w))"
    by (simp add: decrement_rows_def t not_le)
  show ?thesis
    unfolding d e by (simp add: list_all_iff) 
qed

theorem decrease_purges_nonpositive_rows_witness:
  "fst (gets_through stale_world) \<and>
   technologies (decrease_technology_count ''Rust'' stale_world) =
     [\<lparr>tech_id = 2, tech_name = ''Rust'', tech_count = 1\<rparr>]"
proof -
  have g: "fst (gets_through stale_world)"
    by (simp add: gets_through_def stale_world_def retry_loop.simps attempt_fault_def
        next_fault_def take_write_lock_def max_retries_def)
  from decrease_purges_nonpositive_rows [OF g, of "''Rust''"] g show ?thesis
    by (simp add: stale_world_def)
qed

section \<open>Retries and their bound\<close>

lemma update_technology_no_fault:
  "faults w = [] \<Longrightarrow> \<not> left_open w \<Longrightarrow>
   update_technology n w = increment_row n (w\<lparr>attempts := attempts w + 1\<rparr>)"
  by (simp add: update_technology_def retry_no_fault)

lemma decrease_no_fault:
  "faults w = [] \<Longrightarrow> \<not> left_open w \<Longrightarrow>
   decrease_technology_count n w = decrement_rows n (w\<lparr>attempts := attempts w + 1\<rparr>)"
  by (simp add: decrease_technology_count_def retry_no_fault)

lemma faults_increment_row [simp]:
  "faults (increment_row n w) = faults w"
  "left_open (increment_row n w) = left_open w"
  by (simp_all add: increment_row_def)

lemma faults_decrement_rows [simp]:
  "faults (decrement_rows n w) = faults w"
  "left_open (decrement_rows n w) = left_open w"
  by (simp_all add: decrement_rows_def)

text \<open>
  Claim C6, as amended. When the first five attempts of \<^verbatim>\<open>add_repository\<close>,
  \<^verbatim>\<open>update_technology\<close> or \<^verbatim>\<open>decrease_technology_count\<close> all find the database locked,
  the operation makes exactly these five attempts, sleeps 1.0, 1.5, 2.25 and 3.375 between
  them, and gives up with the tables as they were; \<^verbatim>\<open>add_repository\<close> then returns
  \<^verbatim>\<open>False\<close>, the two tally operations return nothing, as they do on success. Any other
  failure of the first attempt ends the operation there, with no sleep. The tally operations
  never make more than five attempts.
\<close>

theorem backoff_bound:
  "(faults w = Locked # Locked # Locked # Locked # Locked # fs \<longrightarrow>
      add_repository now url rd w =
        (False, w\<lparr>faults := fs, attempts := attempts w + 5,
                   sleeps := sleeps w @ [1.0, 1.5, 2.25, 3.375]\<rparr>) \<and>
      update_technology n w =
        w\<lparr>faults := fs, attempts := attempts w + 5,
          sleeps := sleeps w @ [1.0, 1.5, 2.25, 3.375]\<rparr> \<and>
      decrease_technology_count n w =
        w\<lparr>faults := fs, attempts := attempts w + 5,
          sleeps := sleeps w @ [1.0, 1.5, 2.25, 3.375]\<rparr>) \<and>
   (faults w = f # fs \<and> f \<noteq> NoFault \<and> f \<noteq> Locked \<longrightarrow>
      add_repository now url rd w = (False, w\<lparr>faults := fs, attempts := attempts w + 1\<rparr>) \<and>
      update_technology n w = w\<lparr>faults := fs, attempts := attempts w + 1\<rparr> \<and>
      decrease_technology_count n w = w\<lparr>faults := fs, attempts := attempts w + 1\<rparr>) \<and>
   attempts (update_technology n w) \<le> attempts w + 5 \<and>
   attempts (decrease_technology_count n w) \<le> attempts w + 5"
proof -
  have locked: "faults w = Locked # Locked # Locked # Locked # Locked # fs \<longrightarrow>
      add_repository now url rd w =
        (False, w\<lparr>faults := fs, attempts := attempts w + 5,
                   sleeps := sleeps w @ [1.0, 1.5, 2.25, 3.375]\<rparr>) \<and>
      update_technology n w =
        w\<lparr>faults := fs, attempts := attempts w + 5,
          sleeps := sleeps w @ [1.0, 1.5, 2.25, 3.375]\<rparr> \<and>
      decrease_technology_count n w =
        w\<lparr>faults := fs, attempts := attempts w + 5,
          sleeps := sleeps w @ [1.0, 1.5, 2.25, 3.375]\<rparr>"
    by (simp add: add_repository_def update_technology_def decrease_technology_count_def
        retry_all_locked)
  have other: "faults w = f # fs \<and> f \<noteq> NoFault \<and> f \<noteq> Locked \<longrightarrow>
      add_repository now url rd w = (False, w\<lparr>faults := fs, attempts := attempts w + 1\<rparr>) \<and>
      update_technology n w = w\<lparr>faults := fs, attempts := attempts w + 1\<rparr> \<and>
      decrease_technology_count n w = w\<lparr>faults := fs, attempts := attempts w + 1\<rparr>"
    by (simp add: add_repository_def update_technology_def decrease_technology_count_def
        retry_other_fault)
  have split_inc: "update_technology n w =
      (case retry_loop (\<lambda>w1. True) (\<lambda>w1. (True, w1)) False 0 1.0 w of
         (True, w') \<Rightarrow> increment_row n w' | (False, w') \<Rightarrow> w')"
    unfolding update_technology_def
    by (subst retry_loop_split) (simp split: prod.splits bool.splits)
  have split_dec: "decrease_technology_count n w =
      (case retry_loop (\<lambda>w1. True) (\<lambda>w1. (True, w1)) False 0 1.0 w of
         (True, w') \<Rightarrow> decrement_rows n w' | (False, w') \<Rightarrow> w')"
    unfolding decrease_technology_count_def
    by (subst retry_loop_split) (simp split: prod.splits bool.splits)
  have b: "attempts (snd (retry_loop (\<lambda>w1. True) (\<lambda>w1. (True, w1)) False 0 1.0 w)) \<le>
      attempts w + 5"
    using retry_loop_attempts [of "\<lambda>w1. True" True False 0 "1.0" w]
    by (simp add: max_retries_def)
  have inc: "attempts (update_technology n w) \<le> attempts w + 5"
    using b unfolding split_inc
    by (auto split: prod.splits bool.splits simp: increment_row_def)
  have dec: "attempts (decrease_technology_count n w) \<le> attempts w + 5"
    using b unfolding split_dec
    by (auto split: prod.splits bool.splits simp: decrement_rows_def)
  from locked other inc dec show ?thesis by blast
qed

theorem backoff_bound_witness:
  "add_repository ''t'' ''u'' (sample_data None (JObj []))
     (empty_world [Locked, Locked, Locked, Locked, Locked]) =
     (False, \<lparr>repositories = [], technologies = [], next_repo_id = 1, next_tech_id = 1,
              faults = [], attempts = 5, sleeps = [1.0, 1.5, 2.25, 3.375],
              left_open = False, collector = []\<rparr>) \<and>
   update_technology ''Go'' (empty_world [ConnectFailed]) =
     \<lparr>repositories = [], technologies = [], next_repo_id = 1, next_tech_id = 1,
      faults = [], attempts = 1, sleeps = [], left_open = False, collector = []\<rparr>"
  using backoff_bound [of "empty_world [Locked, Locked, Locked, Locked, Locked]" "[]"
      "''t''" "''u''" "sample_data None (JObj [])" "''Go''" Locked]
    backoff_bound [of "empty_world [ConnectFailed]" "[]"
      "''t''" "''u''" "sample_data None (JObj [])" "''Go''" ConnectFailed]
  by (simp add: empty_world_def)

text \<open>
  Claim C6 as stated says the operation returns a failure to its caller. The tally
  operations return nothing: here \<^verbatim>\<open>add_repository\<close> stores the row, its call of
  \<^verbatim>\<open>update_technology\<close> meets five locks and gives up after the four sleeps, the tally stays
  empty, and \<^verbatim>\<open>add_repository\<close> returns \<^verbatim>\<open>True\<close>.
\<close>

theorem tally_failure_not_returned:
  "add_repository ''t'' ''u'' (sample_data (Some ''Go'') (JObj []))
     (empty_world [NoFault, Locked, Locked, Locked, Locked, Locked]) =
     (True, \<lparr>repositories = [new_row 1 ''t'' ''u'' (sample_data (Some ''Go'') (JObj []))],
             technologies = [], next_repo_id = 2, next_tech_id = 1,
             faults = [], attempts = 6, sleeps = [1.0, 1.5, 2.25, 3.375],
             left_open = False, collector = []\<rparr>)"
  by (simp add: add_repository_def retry_first_ok empty_world_def add_repository_body_def
      sample_data_def update_technology_def retry_all_locked tech_stack_entries_def Let_def)

section \<open>The operations without a retry loop\<close>

text \<open>
  Claim C5. \<^verbatim>\<open>update_repository\<close> and \<^verbatim>\<open>delete_repository\<close> do not retry: a locked database
  on their first statement makes them return \<^verbatim>\<open>False\<close> after one attempt, without a sleep
  and with the tables unchanged.
\<close>

theorem update_and_delete_fail_on_first_lock:
  "faults w = Locked # fs \<Longrightarrow>
   update_repository now url rd w = (False, w\<lparr>attempts := attempts w + 1, faults := fs\<rparr>) \<and>
   delete_repository url w = (False, w\<lparr>attempts := attempts w + 1, faults := fs\<rparr>)"
  by (simp add: update_repository_def delete_repository_def attempt_fault_def next_fault_def)

theorem update_and_delete_fail_on_first_lock_witness:
  "update_repository ''t'' ''u'' (sample_data None (JObj [])) locked_once_world =
     (False, locked_once_world\<lparr>attempts := 1, faults := []\<rparr>) \<and>
   delete_repository ''u'' locked_once_world =
     (False, locked_once_world\<lparr>attempts := 1, faults := []\<rparr>) \<and>
   fst (add_repository ''t'' ''v'' (sample_data None (JObj [])) locked_once_world) = True"
proof -
  have f: "faults locked_once_world = Locked # []"
    by (simp add: locked_once_world_def)
  have a: "fst (add_repository ''t'' ''v'' (sample_data None (JObj [])) locked_once_world) = True"
    by (simp add: add_repository_def retry_loop.simps attempt_fault_def next_fault_def
        take_write_lock_def max_retries_def locked_once_world_def add_repository_body_def
        sample_data_def tech_stack_entries_def new_row_def Let_def)
  from update_and_delete_fail_on_first_lock [OF f, of "''t''" "''u''" "sample_data None (JObj [])"] a
  show ?thesis by (simp add: locked_once_world_def)
qed

section \<open>What the tally updates leave alone\<close>

lemma update_technology_split:
  "update_technology n w =
     (case gets_through w of (True, w') \<Rightarrow> increment_row n w' | (False, w') \<Rightarrow> w')"
  unfolding update_technology_def gets_through_def
  by (subst retry_loop_split) (simp split: prod.splits bool.splits)

lemma decrease_split:
  "decrease_technology_count n w =
     (case gets_through w of (True, w') \<Rightarrow> decrement_rows n w' | (False, w') \<Rightarrow> w')"
  unfolding decrease_technology_count_def gets_through_def
  by (subst retry_loop_split) (simp split: prod.splits bool.splits)

lemma gets_through_tables:
  "repositories (snd (gets_through w)) = repositories w \<and>
   technologies (snd (gets_through w)) = technologies w \<and>
   next_repo_id (snd (gets_through w)) = next_repo_id w \<and>
   next_tech_id (snd (gets_through w)) = next_tech_id w"
  unfolding gets_through_def by (rule retry_loop_tables)

lemma gets_through_no_fault:
  "faults w = [] \<Longrightarrow> \<not> left_open w \<Longrightarrow>
   gets_through w = (True, w\<lparr>attempts := attempts w + 1\<rparr>)"
  by (simp add: gets_through_def retry_no_fault)

lemma update_technology_repositories [simp]:
  "repositories (update_technology n w) = repositories w"
  "next_repo_id (update_technology n w) = next_repo_id w"
  using gets_through_tables [of w]
  by (auto simp: update_technology_split increment_row_def split: prod.splits bool.splits)

lemma null_update_repositories:
  "repositories (snd (retry_loop wr (\<lambda>w1. ((), w1\<lparr>left_open := True\<rparr>)) () 0 d w)) =
     repositories w"
  "next_repo_id (snd (retry_loop wr (\<lambda>w1. ((), w1\<lparr>left_open := True\<rparr>)) () 0 d w)) =
     next_repo_id w"
  "technologies (snd (retry_loop wr (\<lambda>w1. ((), w1\<lparr>left_open := True\<rparr>)) () 0 d w)) =
     technologies w"
  "next_tech_id (snd (retry_loop wr (\<lambda>w1. ((), w1\<lparr>left_open := True\<rparr>)) () 0 d w)) =
     next_tech_id w"
proof -
  obtain b w' where g: "retry_loop wr (\<lambda>w1. (True, w1)) False 0 d w = (b, w')"
    by (cases "retry_loop wr (\<lambda>w1. (True, w1)) False 0 d w")
  have t: "repositories w' = repositories w" "next_repo_id w' = next_repo_id w"
    "technologies w' = technologies w" "next_tech_id w' = next_tech_id w"
    using retry_loop_tables [of wr True False 0 d w] g by simp_all
  have r: "retry_loop wr (\<lambda>w1. ((), w1\<lparr>left_open := True\<rparr>)) () 0 d w =
      (if b then ((), w'\<lparr>left_open := True\<rparr>) else ((), w'))"
    by (subst retry_loop_split) (simp add: g)
  show "repositories (snd (retry_loop wr (\<lambda>w1. ((), w1\<lparr>left_open := True\<rparr>)) () 0 d w)) =
     repositories w"
    "next_repo_id (snd (retry_loop wr (\<lambda>w1. ((), w1\<lparr>left_open := True\<rparr>)) () 0 d w)) =
     next_repo_id w"
    "technologies (snd (retry_loop wr (\<lambda>w1. ((), w1\<lparr>left_open := True\<rparr>)) () 0 d w)) =
     technologies w"
    "next_tech_id (snd (retry_loop wr (\<lambda>w1. ((), w1\<lparr>left_open := True\<rparr>)) () 0 d w)) =
     next_tech_id w"
    using t by (simp_all add: r)
qed

lemma update_technology_entry_repositories [simp]:
  "repositories (update_technology_entry t w) = repositories w"
  "next_repo_id (update_technology_entry t w) = next_repo_id w"
  by (auto simp: update_technology_entry_def null_update_repositories next_fault_def
      split: sql_param.splits list.splits)

lemma foldl_entries_repositories [simp]:
  "repositories (foldl (\<lambda>w' t. update_technology_entry t w') w ts) = repositories w"
  "next_repo_id (foldl (\<lambda>w' t. update_technology_entry t w') w ts) = next_repo_id w"
  by (induction ts arbitrary: w) simp_all

lemma add_repository_body_repositories:
  "repositories (snd (add_repository_body now url rd w)) =
     (if url \<in> repo_url ` set (repositories w) then repositories w
      else repositories w @ [new_row (next_repo_id w) now url rd])"
  by (auto simp: add_repository_body_def Let_def split: option.splits sum.splits)

section \<open>The url under which a repository is stored\<close>

text \<open>
  Claim C4, as amended. \<^verbatim>\<open>main\<close> passes the url the user typed to \<^verbatim>\<open>add_repository\<close>, which
  looks it up and stores it exactly as given: when the backend answers (no fault, no
  connection left open with the write lock) and
  \<^verbatim>\<open>get_repo_info\<close> returned data, the table is unchanged if a row has this very string
  as \<^verbatim>\<open>repo_url\<close>, and otherwise gains one row whose \<^verbatim>\<open>repo_url\<close> is this very string.
\<close>

theorem add_stores_url_verbatim:
  assumes "get_repo_info url = Some rd" and "url \<noteq> []" and "faults w = []"
    and "\<not> left_open w"
  shows "repositories (snd (main_add get_repo_info now url w)) =
           (if url \<in> repo_url ` set (repositories w) then repositories w
            else repositories w @ [new_row (next_repo_id w) now url rd])"
proof -
  have "snd (main_add get_repo_info now url w) =
          snd (add_repository_body now url rd (w\<lparr>attempts := attempts w + 1\<rparr>))"
    using assms
    by (simp add: main_add_def add_repository_def retry_no_fault case_prod_beta)
  then show ?thesis
    by (simp add: add_repository_body_repositories)
qed

theorem add_stores_url_verbatim_witness:
  "map repo_url (repositories (snd (main_add (\<lambda>u. Some (sample_data None (JObj [])))
      ''t'' '' https://github.com/o/r.git/'' (empty_world [])))) =
     ['' https://github.com/o/r.git/'']"
proof -
  have "faults (empty_world []) = []" "\<not> left_open (empty_world [])"
    by (simp_all add: empty_world_def)
  from add_stores_url_verbatim [of "\<lambda>u. Some (sample_data None (JObj []))"
      "'' https://github.com/o/r.git/''" "sample_data None (JObj [])" "empty_world []" "''t''",
      OF _ _ this]
  show ?thesis by (simp add: empty_world_def new_row_def)
qed

text \<open>
  Claim C4 as stated fails: \<^verbatim>\<open>main\<close> hands \<^verbatim>\<open>add_repository\<close> the url as typed, so it is
  stored with its \<^verbatim>\<open>.git\<close> suffix and trailing slash, although \<^verbatim>\<open>get_repo_info\<close> has
  removed both from its own copy; and that normalisation keeps a query string.
\<close>

theorem stored_url_not_normalized:
  "map repo_url (repositories (snd (main_add (\<lambda>u. Some (sample_data None (JObj [])))
      ''t'' ''https://github.com/o/r.git/'' (empty_world [])))) = [''https://github.com/o/r.git/''] \<and>
   normalize_repo_url ''https://github.com/o/r.git/'' = ''https://github.com/o/r'' \<and>
   normalize_repo_url ''https://github.com/o/r?tab=readme'' = ''https://github.com/o/r?tab=readme''"
proof -
  have "map repo_url (repositories (snd (main_add (\<lambda>u. Some (sample_data None (JObj [])))
      ''t'' ''https://github.com/o/r.git/'' (empty_world [])))) = [''https://github.com/o/r.git/'']"
    by (simp add: main_add_def add_repository_def retry_no_fault empty_world_def
        add_repository_body_def sample_data_def tech_stack_entries_def new_row_def Let_def)
  moreover have "normalize_repo_url ''https://github.com/o/r.git/'' = ''https://github.com/o/r''"
    by (simp add: normalize_repo_url_def strip_def rstrip_slash_def endswith_def
        py_whitespace_def Let_def)
  moreover have "normalize_repo_url ''https://github.com/o/r?tab=readme'' =
      ''https://github.com/o/r?tab=readme''"
    by (simp add: normalize_repo_url_def strip_def rstrip_slash_def endswith_def
        py_whitespace_def Let_def)
  ultimately show ?thesis by blast
qed

section \<open>A failed add after the commit\<close>

text \<open>
  Claim C9 at its failing input. The metadata file says \<^verbatim>\<open>{"tech_stack": 5}\<close> and the
  language is Go. In the SQLite and the Deta backend alike the row is stored, Go is counted,
  and then \<^verbatim>\<open>for tech in 5\<close> raises \<^verbatim>\<open>TypeError\<close>, which \<^verbatim>\<open>except Exception\<close> turns into
  the result \<^verbatim>\<open>False\<close>: the add is reported as failed and the tally has changed.
\<close>

theorem failed_add_changes_tally:
  "add_repository ''t'' ''u'' (sample_data (Some ''Go'') (JObj [(''tech_stack'', JInt 5)]))
     (empty_world []) =
     (False,
      \<lparr>repositories =
         [new_row 1 ''t'' ''u'' (sample_data (Some ''Go'') (JObj [(''tech_stack'', JInt 5)]))],
       technologies = [\<lparr>tech_id = 1, tech_name = ''Go'', tech_count = 1\<rparr>],
       next_repo_id = 2, next_tech_id = 2, faults = [], attempts = 2, sleeps = [],
       left_open = False, collector = []\<rparr>) \<and>
   cloud_add_repository ''t'' ''u'' (sample_data (Some ''Go'') (JObj [(''tech_stack'', JInt 5)]))
     (empty_cloud []) =
     (False,
      \<lparr>repo_items =
         [new_row 0 ''t'' ''u'' (sample_data (Some ''Go'') (JObj [(''tech_stack'', JInt 5)]))],
       tech_items = [\<lparr>tech_id = 1, tech_name = JStr ''Go'', tech_count = 1\<rparr>],
       next_key = 2, outages = []\<rparr>)"
  by (simp add: add_repository_def retry_no_fault empty_world_def add_repository_body_def
      sample_data_def tech_stack_entries_def update_technology_def increment_row_def Let_def
      cloud_add_repository_def request_def empty_cloud_def cloud_update_technology_def)

theorem failed_add_changes_tally_witness:
  "fst (add_repository ''t'' ''u'' (sample_data (Some ''Go'') (JObj [(''tech_stack'', JInt 5)]))
     (empty_world [])) = False \<and>
   technologies (snd (add_repository ''t'' ''u''
     (sample_data (Some ''Go'') (JObj [(''tech_stack'', JInt 5)])) (empty_world []))) \<noteq>
   technologies (empty_world [])"
  using failed_add_changes_tally by (simp add: empty_world_def)

section \<open>A null in the tech stack\<close>

text \<open>
  With \<^verbatim>\<open>tech_stack = [null, "Go", "Docker"]\<close> on a new store: the row is stored, the call
  for \<^verbatim>\<open>null\<close> fails on \<^verbatim>\<open>NOT NULL\<close> and leaves its connection open with the write lock,
  and the calls for Go and Docker each find the database locked five times and give up:
  \<^verbatim>\<open>add_repository\<close> returns \<^verbatim>\<open>True\<close> with an empty tally. When the collector closes the
  connection before the second attempt for Go, Go and Docker are counted.
\<close>

lemma null_entry_blocks_later_updates:
  "add_repository ''t'' ''u'' null_stack_data (empty_world []) =
     (True,
      \<lparr>repositories = [new_row 1 ''t'' ''u'' null_stack_data], technologies = [],
       next_repo_id = 2, next_tech_id = 1, faults = [], attempts = 12,
       sleeps = [1.0, 1.5, 2.25, 3.375, 1.0, 1.5, 2.25, 3.375],
       left_open = True, collector = []\<rparr>)"
  by (simp add: add_repository_def retry_no_fault empty_world_def add_repository_body_def
      null_stack_data_def sample_data_def tech_stack_entries_def update_technology_entry_def
      update_technology_def retry_left_open Let_def)

lemma null_entry_until_collected:
  "add_repository ''t'' ''u'' null_stack_data ((empty_world [])\<lparr>collector := [False, True]\<rparr>) =
     (True,
      \<lparr>repositories = [new_row 1 ''t'' ''u'' null_stack_data],
       technologies = [\<lparr>tech_id = 1, tech_name = ''Go'', tech_count = 1\<rparr>,
                       \<lparr>tech_id = 2, tech_name = ''Docker'', tech_count = 1\<rparr>],
       next_repo_id = 2, next_tech_id = 3, faults = [], attempts = 5,
       sleeps = [1.0], left_open = False, collector = []\<rparr>)"
  by (simp add: add_repository_def retry_no_fault empty_world_def add_repository_body_def
      null_stack_data_def sample_data_def tech_stack_entries_def update_technology_entry_def
      update_technology_def retry_loop.simps attempt_fault_def next_fault_def
      take_write_lock_def max_retries_def increment_row_def Let_def)

section \<open>Engines\<close>

lemma stable_engine_admissible: "order_by_count_desc rows (stable_engine rows)"
proof -
  have "sorted (map (\<lambda>r. - tech_count r) (stable_engine rows))"
    unfolding stable_engine_def by (rule sorted_sort_key)
  then have "sorted_wrt (\<lambda>a b. tech_count b \<le> tech_count a) (stable_engine rows)"
    by (simp add: sorted_map)
  then show ?thesis
    by (simp add: order_by_count_desc_def stable_engine_def)
qed

lemma order_by_two_rows:
  assumes "order_by_count_desc [a, b] res" and "tech_count b < tech_count a"
  shows "res = [a, b]"
proof -
  from assms have m: "mset res = {#a, b#}"
    and s: "sorted_wrt (\<lambda>x y. tech_count y \<le> tech_count x) res"
    by (auto simp: order_by_count_desc_def)
  from m have "size (mset res) = 2" by simp
  then have "length res = 2" by simp
  then obtain x y where r: "res = [x, y]"
    by (cases res; cases "tl res") auto
  with m have "(x = a \<and> y = b) \<or> (x = b \<and> y = a)"
    by (auto simp: add_eq_conv_ex)
  with s r assms(2) show ?thesis by auto
qed

lemma get_technology_stats_no_fault:
  "faults w = [] \<Longrightarrow>
   get_technology_stats q w =
     (map (\<lambda>r. (tech_name r, tech_count r)) (q (technologies w)), w\<lparr>attempts := attempts w + 1\<rparr>)"
  by (simp add: get_technology_stats_def retry_read_no_fault)

section \<open>The scenario\<close>

lemma scenario_add:
  assumes "d_language rd = Some ''Go''"
    and "tech_stack_entries (d_custom_metadata rd) = Inr [JStr ''Go'', JStr ''Docker'']"
  shows "add_repository now url rd (empty_world []) =
    (True, \<lparr>repositories = [new_row 1 now url rd],
            technologies = [\<lparr>tech_id = 1, tech_name = ''Go'', tech_count = 2\<rparr>,
                            \<lparr>tech_id = 2, tech_name = ''Docker'', tech_count = 1\<rparr>],
            next_repo_id = 2, next_tech_id = 3, faults = [], attempts = 4, sleeps = [],
            left_open = False, collector = []\<rparr>)"
  using assms
  by (simp add: add_repository_def retry_no_fault empty_world_def add_repository_body_def
      update_technology_def update_technology_entry_def increment_row_def Let_def)

lemma scenario_delete:
  assumes "d_language rd = Some ''Go''"
  shows "delete_repository url
     \<lparr>repositories = [new_row 1 now url rd],
      technologies = [\<lparr>tech_id = 1, tech_name = ''Go'', tech_count = 2\<rparr>,
                      \<lparr>tech_id = 2, tech_name = ''Docker'', tech_count = 1\<rparr>],
      next_repo_id = 2, next_tech_id = 3, faults = [], attempts = k, sleeps = [],
      left_open = False, collector = []\<rparr> =
    (True, \<lparr>repositories = [],
            technologies = [\<lparr>tech_id = 1, tech_name = ''Go'', tech_count = 1\<rparr>,
                            \<lparr>tech_id = 2, tech_name = ''Docker'', tech_count = 1\<rparr>],
            next_repo_id = 2, next_tech_id = 3, faults = [], attempts = k + 2, sleeps = [],
            left_open = False, collector = []\<rparr>)"
  using assms
  by (simp add: delete_repository_def attempt_fault_def next_fault_def take_write_lock_def
      new_row_def decrease_technology_count_def retry_no_fault decrement_rows_def Let_def)

text \<open>
  Claim C3, as amended. On a new store, whatever order the engine gives rows of equal count:
  adding a repository with language Go and tech stack Go, Docker succeeds and the snapshot
  is Go: 2, Docker: 1; deleting it succeeds, removes the row, and the snapshot then holds
  the two entries Go: 1 and Docker: 1, since the delete lowers Go once, for the language.
\<close>

theorem go_docker_scenario:
  assumes q: "\<forall>rows. order_by_count_desc rows (run_query rows)"
    and l: "d_language rd = Some ''Go''"
    and t: "tech_stack_entries (d_custom_metadata rd) = Inr [JStr ''Go'', JStr ''Docker'']"
  shows "(let (added, w1) = add_repository now url rd (empty_world []);
              (s1, w2) = get_technology_stats run_query w1;
              (removed, w3) = delete_repository url w2;
              (s2, w4) = get_technology_stats run_query w3
          in added \<and> s1 = [(''Go'', 2), (''Docker'', 1)] \<and> removed \<and> repositories w3 = [] \<and>
             mset s2 = {#(''Go'', 1), (''Docker'', 1)#})"
proof -
  let ?go2 = "\<lparr>tech_id = 1, tech_name = ''Go'', tech_count = 2::int\<rparr>"
  let ?go1 = "\<lparr>tech_id = 1, tech_name = ''Go'', tech_count = 1::int\<rparr>"
  let ?docker = "\<lparr>tech_id = 2, tech_name = ''Docker'', tech_count = 1::int\<rparr>"
  let ?w1 = "\<lparr>repositories = [new_row 1 now url rd], technologies = [?go2, ?docker],
      next_repo_id = 2, next_tech_id = 3, faults = [], attempts = 4, sleeps = [],
      left_open = False, collector = []\<rparr>"
  let ?w2 = "\<lparr>repositories = [new_row 1 now url rd], technologies = [?go2, ?docker],
      next_repo_id = 2, next_tech_id = 3, faults = [], attempts = 5, sleeps = [],
      left_open = False, collector = []\<rparr>"
  let ?w3 = "\<lparr>repositories = [], technologies = [?go1, ?docker],
      next_repo_id = 2, next_tech_id = 3, faults = [], attempts = 5 + 2, sleeps = [],
      left_open = False, collector = []\<rparr>"
  have first: "run_query [?go2, ?docker] = [?go2, ?docker]"
    using q by (intro order_by_two_rows) simp_all
  have "mset (run_query [?go1, ?docker]) = mset [?go1, ?docker]"
    using q by (simp add: order_by_count_desc_def)
  then have "image_mset (\<lambda>r. (tech_name r, tech_count r)) (mset (run_query [?go1, ?docker])) =
      {#(''Go'', 1), (''Docker'', 1)#}"
    by simp
  then have second: "mset (map (\<lambda>r. (tech_name r, tech_count r)) (run_query [?go1, ?docker])) =
      {#(''Go'', 1), (''Docker'', 1)#}"
    by simp
  have a1: "add_repository now url rd (empty_world []) = (True, ?w1)"
    by (rule scenario_add [OF l t])
  have g1: "get_technology_stats run_query ?w1 = ([(''Go'', 2), (''Docker'', 1)], ?w2)"
    using first by (simp add: get_technology_stats_no_fault)
  have d1: "delete_repository url ?w2 = (True, ?w3)"
    by (rule scenario_delete [OF l])
  have g2: "mset (fst (get_technology_stats run_query ?w3)) = {#(''Go'', 1), (''Docker'', 1)#}"
    using second by (simp add: get_technology_stats_no_fault del: mset_map)
  have r3: "repositories ?w3 = []" by simp
  show ?thesis
    by (simp only: Let_def case_prod_beta a1 fst_conv snd_conv g1 d1 g2 r3 simp_thms)
qed

theorem go_docker_scenario_witness:
  "(\<forall>rows. order_by_count_desc rows (stable_engine rows)) \<and>
   fst (add_repository ''t'' ''A'' go_docker_data (empty_world [])) \<and>
   fst (get_technology_stats stable_engine
     (snd (add_repository ''t'' ''A'' go_docker_data (empty_world [])))) =
     [(''Go'', 2), (''Docker'', 1)]"
proof -
  have q: "\<forall>rows. order_by_count_desc rows (stable_engine rows)"
    by (simp add: stable_engine_admissible)
  have l: "d_language go_docker_data = Some ''Go''"
    by (simp add: go_docker_data_def sample_data_def)
  have t: "tech_stack_entries (d_custom_metadata go_docker_data) = Inr [JStr ''Go'', JStr ''Docker'']"
    by (simp add: go_docker_data_def sample_data_def tech_stack_entries_def)
  from go_docker_scenario [OF q l t, of "''t''" "''A''"] q show ?thesis
    by (simp add: Let_def case_prod_beta)
qed

text \<open>
  Claim C3 as stated says that after the delete the snapshot is exactly Docker: 1. It is
  Go: 1, Docker: 1.
\<close>

theorem delete_leaves_go_counted:
  "fst (get_technology_stats stable_engine
     (snd (delete_repository ''A''
       (snd (add_repository ''t'' ''A'' go_docker_data (empty_world [])))))) =
     [(''Go'', 1), (''Docker'', 1)]"
proof -
  have l: "d_language go_docker_data = Some ''Go''"
    by (simp add: go_docker_data_def sample_data_def)
  have t: "tech_stack_entries (d_custom_metadata go_docker_data) = Inr [JStr ''Go'', JStr ''Docker'']"
    by (simp add: go_docker_data_def sample_data_def tech_stack_entries_def)
  let ?w3 = "\<lparr>repositories = [],
      technologies = [\<lparr>tech_id = 1, tech_name = ''Go'', tech_count = 1::int\<rparr>,
                      \<lparr>tech_id = 2, tech_name = ''Docker'', tech_count = 1::int\<rparr>],
      next_repo_id = 2, next_tech_id = 3, faults = [], attempts = 4 + 2, sleeps = [],
      left_open = False, collector = []\<rparr>"
  have g: "fst (get_technology_stats stable_engine ?w3) = [(''Go'', 1), (''Docker'', 1)]"
    by (simp add: get_technology_stats_no_fault stable_engine_def)
  show ?thesis
    by (simp only: scenario_add [OF l t] scenario_delete [OF l] snd_conv g)
qed

section \<open>Updating a repository\<close>

lemma find_map_preserving:
  "(\<And>x. x \<in> set xs \<Longrightarrow> P (g x) = P x) \<Longrightarrow> find P (map g xs) = map_option g (find P xs)"
  by (induction xs) auto

lemma find_filter_head:
  "find P xs = Some x \<Longrightarrow> \<exists>ys. filter P xs = x # ys"
  by (induction xs) (auto split: if_splits)

lemma overwrite_keeps [simp]:
  "repo_id (overwrite now rd r) = repo_id r"
  "repo_url (overwrite now rd r) = repo_url r"
  by (simp_all add: overwrite_def)

lemma overwrite_holds_data: "holds_data now rd (overwrite now rd r)"
  by (simp add: holds_data_def overwrite_def)

lemma same_id_same_row:
  assumes "distinct (map repo_id xs)" and "x \<in> set xs" and "y \<in> set xs"
    and "repo_id x = repo_id y"
  shows "x = y"
  using assms by (meson distinct_map inj_onD)

lemma update_repository_tally [simp]:
  "technologies (snd (update_repository now url rd w)) = technologies w"
  using attempt_fault_tables(2)
    [of "\<lambda>w1. \<exists>r \<in> set (repositories w1). repo_url r = url" "w\<lparr>attempts := attempts w + 1\<rparr>"]
  by (auto simp: update_repository_def split: prod.splits fault.splits)

lemma cloud_update_repository_tally [simp]:
  "tech_items (snd (cloud_update_repository now url rd c)) = tech_items c"
  by (auto simp: cloud_update_repository_def request_def split: list.splits bool.splits)

lemma firebase_update_repository_tally [simp]:
  "fb_technologies (snd (firebase_update_repository now url rd f)) = fb_technologies f"
  by (auto simp: firebase_update_repository_def fb_request_def split: list.splits bool.splits)

lemma sqlite_update_existing:
  assumes "faults w = []" and "\<not> left_open w"
    and "find (\<lambda>r. repo_url r = url) (repositories w) = Some existing"
  shows "fst (update_repository now url rd w)"
    and "map repo_id (repositories (snd (update_repository now url rd w))) =
           map repo_id (repositories w)"
    and "map repo_url (repositories (snd (update_repository now url rd w))) =
           map repo_url (repositories w)"
    and "find (\<lambda>r. repo_url r = url) (repositories (snd (update_repository now url rd w))) =
           Some (overwrite now rd existing)"
proof -
  from assms(3) have ex: "\<exists>r \<in> set (repositories w). repo_url r = url"
    by (auto simp: find_Some_iff)
  let ?g = "\<lambda>r. if repo_url r = url then overwrite now rd r else r"
  have u: "update_repository now url rd w =
      (True, w\<lparr>attempts := attempts w + 1, repositories := map ?g (repositories w)\<rparr>)"
    using assms(1,2) ex
    by (simp add: update_repository_def attempt_fault_def next_fault_def take_write_lock_def)
  show "fst (update_repository now url rd w)" by (simp add: u)
  show "map repo_id (repositories (snd (update_repository now url rd w))) =
           map repo_id (repositories w)"
    by (simp add: u)
  show "map repo_url (repositories (snd (update_repository now url rd w))) =
           map repo_url (repositories w)"
    by (simp add: u)
  have "find (\<lambda>r. repo_url r = url) (map ?g (repositories w)) =
      map_option ?g (find (\<lambda>r. repo_url r = url) (repositories w))"
    by (rule find_map_preserving) simp
  also have "\<dots> = Some (overwrite now rd existing)"
    using assms(3) by (auto simp: find_Some_iff)
  finally show "find (\<lambda>r. repo_url r = url)
      (repositories (snd (update_repository now url rd w))) = Some (overwrite now rd existing)"
    by (simp add: u)
qed

lemma cloud_update_existing:
  assumes "outages c = []" and "find (\<lambda>r. repo_url r = url) (repo_items c) = Some existing"
    and d: "distinct (map repo_id (repo_items c))"
  shows "fst (cloud_update_repository now url rd c)"
    and "map repo_id (repo_items (snd (cloud_update_repository now url rd c))) =
           map repo_id (repo_items c)"
    and "map repo_url (repo_items (snd (cloud_update_repository now url rd c))) =
           map repo_url (repo_items c)"
    and "find (\<lambda>r. repo_url r = url) (repo_items (snd (cloud_update_repository now url rd c))) =
           Some (overwrite now rd existing)"
proof -
  from assms(2) have mem: "existing \<in> set (repo_items c)" and url: "repo_url existing = url"
    by (auto simp: find_Some_iff)
  have ee: "existing\<lparr>repo_url := url\<rparr> = existing"
    unfolding url [symmetric] by simp
  obtain ys where fl: "filter (\<lambda>r. repo_url r = url) (repo_items c) = existing # ys"
    using find_filter_head [OF assms(2)] by blast
  let ?g = "\<lambda>r. if repo_id r = repo_id existing
                 then overwrite now rd (r\<lparr>repo_url := url\<rparr>) else r"
  have u: "cloud_update_repository now url rd c = (True, c\<lparr>repo_items := map ?g (repo_items c)\<rparr>)"
    using assms(1) fl by (simp add: cloud_update_repository_def request_def)
  have same: "\<And>r. r \<in> set (repo_items c) \<Longrightarrow> repo_id r = repo_id existing \<Longrightarrow> r = existing"
    using same_id_same_row [OF d _ mem] by blast
  have keep: "\<And>r. r \<in> set (repo_items c) \<Longrightarrow> repo_url (?g r) = repo_url r"
    using same url by auto
  show "fst (cloud_update_repository now url rd c)" by (simp add: u)
  show "map repo_id (repo_items (snd (cloud_update_repository now url rd c))) =
           map repo_id (repo_items c)"
    by (simp add: u)
  show "map repo_url (repo_items (snd (cloud_update_repository now url rd c))) =
           map repo_url (repo_items c)"
    using keep by (simp add: u)
  have "find (\<lambda>r. repo_url r = url) (map ?g (repo_items c)) =
      map_option ?g (find (\<lambda>r. repo_url r = url) (repo_items c))"
    by (rule find_map_preserving) (simp only: keep)
  also have "\<dots> = Some (overwrite now rd existing)"
    using assms(2) ee by simp
  finally show "find (\<lambda>r. repo_url r = url)
      (repo_items (snd (cloud_update_repository now url rd c))) = Some (overwrite now rd existing)"
    by (simp add: u)
qed

lemma firebase_update_existing:
  assumes "fb_outages f = []"
    and "find (\<lambda>r. repo_url r = url) (fb_repositories f) = Some existing"
    and d: "distinct (map repo_id (fb_repositories f))"
  shows "fst (firebase_update_repository now url rd f)"
    and "map repo_id (fb_repositories (snd (firebase_update_repository now url rd f))) =
           map repo_id (fb_repositories f)"
    and "map repo_url (fb_repositories (snd (firebase_update_repository now url rd f))) =
           map repo_url (fb_repositories f)"
    and "map shown_id (fb_repositories (snd (firebase_update_repository now url rd f))) =
           map shown_id (fb_repositories f)"
    and "find (\<lambda>r. repo_url r = url)
           (fb_repositories (snd (firebase_update_repository now url rd f))) =
           Some (overwrite now rd (existing\<lparr>id_field := Some (shown_id existing)\<rparr>))"
proof -
  from assms(2) have mem: "existing \<in> set (fb_repositories f)" and url: "repo_url existing = url"
    by (auto simp: find_Some_iff)
  have ee: "existing\<lparr>repo_url := url\<rparr> = existing"
    unfolding url [symmetric] by simp
  obtain ys where fl: "filter (\<lambda>r. repo_url r = url) (fb_repositories f) = existing # ys"
    using find_filter_head [OF assms(2)] by blast
  let ?g = "\<lambda>r. if repo_id r = repo_id existing
                 then overwrite now rd (r\<lparr>repo_url := url, id_field := Some (shown_id existing)\<rparr>)
                 else r"
  have u: "firebase_update_repository now url rd f =
      (True, f\<lparr>fb_repositories := map ?g (fb_repositories f)\<rparr>)"
    using assms(1) fl by (simp add: firebase_update_repository_def fb_request_def shown_id_def)
  have same: "\<And>r. r \<in> set (fb_repositories f) \<Longrightarrow> repo_id r = repo_id existing \<Longrightarrow> r = existing"
    using same_id_same_row [OF d _ mem] by blast
  have keep: "\<And>r. r \<in> set (fb_repositories f) \<Longrightarrow> repo_url (?g r) = repo_url r"
    using same url by auto
  have keep_id: "\<And>r. r \<in> set (fb_repositories f) \<Longrightarrow> shown_id (?g r) = shown_id r"
    using same by (auto simp: shown_id_def overwrite_def)
  show "fst (firebase_update_repository now url rd f)" by (simp add: u)
  show "map repo_id (fb_repositories (snd (firebase_update_repository now url rd f))) =
           map repo_id (fb_repositories f)"
    by (simp add: u)
  show "map repo_url (fb_repositories (snd (firebase_update_repository now url rd f))) =
           map repo_url (fb_repositories f)"
    using keep by (simp add: u)
  show "map shown_id (fb_repositories (snd (firebase_update_repository now url rd f))) =
           map shown_id (fb_repositories f)"
    using keep_id by (simp add: u)
  have "find (\<lambda>r. repo_url r = url) (map ?g (fb_repositories f)) =
      map_option ?g (find (\<lambda>r. repo_url r = url) (fb_repositories f))"
    by (rule find_map_preserving) (simp only: keep)
  also have "\<dots> = Some (overwrite now rd (existing\<lparr>id_field := Some (shown_id existing)\<rparr>))"
    using assms(2) ee by simp
  finally show "find (\<lambda>r. repo_url r = url)
      (fb_repositories (snd (firebase_update_repository now url rd f))) =
      Some (overwrite now rd (existing\<lparr>id_field := Some (shown_id existing)\<rparr>))"
    by (simp add: u)
qed

text \<open>
  Claim C7. When the backend answers (in SQLite: no fault, and no connection left open
  with the write lock) and a record with the url exists, \<^verbatim>\<open>update_repository\<close>
  returns \<^verbatim>\<open>True\<close> in each of the three backends; the ids and urls of the stored records
  are what they were (in Firestore also the id under which a document is shown); the
  record found under the url is the old one with all nine data fields overwritten from
  \<open>rd\<close> and \<open>now\<close>; and the tally is unchanged. The tally is in fact unchanged by every call
  of \<^verbatim>\<open>update_repository\<close>, whatever the state, the url and the faults (the last three
  conjuncts).
\<close>

theorem update_overwrites_and_keeps_tally:
  assumes "faults w = []"
    and "\<not> left_open w"
    and "find (\<lambda>r. repo_url r = url) (repositories w) = Some row"
    and "outages c = []"
    and "find (\<lambda>r. repo_url r = url) (repo_items c) = Some item"
    and "distinct (map repo_id (repo_items c))"
    and "fb_outages f = []"
    and "find (\<lambda>r. repo_url r = url) (fb_repositories f) = Some doc"
    and "distinct (map repo_id (fb_repositories f))"
  shows "fst (update_repository now url rd w) \<and>
         technologies (snd (update_repository now url rd w)) = technologies w \<and>
         map repo_id (repositories (snd (update_repository now url rd w))) =
           map repo_id (repositories w) \<and>
         map repo_url (repositories (snd (update_repository now url rd w))) =
           map repo_url (repositories w) \<and>
         find (\<lambda>r. repo_url r = url) (repositories (snd (update_repository now url rd w))) =
           Some (overwrite now rd row) \<and>
         holds_data now rd (overwrite now rd row) \<and>
         fst (cloud_update_repository now url rd c) \<and>
         tech_items (snd (cloud_update_repository now url rd c)) = tech_items c \<and>
         map repo_id (repo_items (snd (cloud_update_repository now url rd c))) =
           map repo_id (repo_items c) \<and>
         map repo_url (repo_items (snd (cloud_update_repository now url rd c))) =
           map repo_url (repo_items c) \<and>
         find (\<lambda>r. repo_url r = url) (repo_items (snd (cloud_update_repository now url rd c))) =
           Some (overwrite now rd item) \<and>
         holds_data now rd (overwrite now rd item) \<and>
         fst (firebase_update_repository now url rd f) \<and>
         fb_technologies (snd (firebase_update_repository now url rd f)) = fb_technologies f \<and>
         map repo_id (fb_repositories (snd (firebase_update_repository now url rd f))) =
           map repo_id (fb_repositories f) \<and>
         map shown_id (fb_repositories (snd (firebase_update_repository now url rd f))) =
           map shown_id (fb_repositories f) \<and>
         map repo_url (fb_repositories (snd (firebase_update_repository now url rd f))) =
           map repo_url (fb_repositories f) \<and>
         find (\<lambda>r. repo_url r = url)
           (fb_repositories (snd (firebase_update_repository now url rd f))) =
           Some (overwrite now rd (doc\<lparr>id_field := Some (shown_id doc)\<rparr>)) \<and>
         holds_data now rd (overwrite now rd (doc\<lparr>id_field := Some (shown_id doc)\<rparr>)) \<and>
         technologies (snd (update_repository now' url' rd' w')) = technologies w' \<and>
         tech_items (snd (cloud_update_repository now' url' rd' c')) = tech_items c' \<and>
         fb_technologies (snd (firebase_update_repository now' url' rd' f')) = fb_technologies f'"
  using sqlite_update_existing [OF assms(1,2,3), of now rd]
    cloud_update_existing [OF assms(4,5,6), of now rd]
    firebase_update_existing [OF assms(7,8,9), of now rd]
  by (simp only: update_repository_tally cloud_update_repository_tally
      firebase_update_repository_tally overwrite_holds_data simp_thms)

theorem update_overwrites_and_keeps_tally_witness:
  "fst (update_repository ''2024-06-01 12:00:00'' ''u'' go_docker_data stored_world) \<and>
   technologies (snd (update_repository ''2024-06-01 12:00:00'' ''u'' go_docker_data stored_world)) =
     [\<lparr>tech_id = 1, tech_name = ''Go'', tech_count = 1\<rparr>] \<and>
   find (\<lambda>r. repo_url r = ''u'')
     (repo_items (snd (cloud_update_repository ''2024-06-01 12:00:00'' ''u'' go_docker_data
        stored_cloud))) =
     Some (overwrite ''2024-06-01 12:00:00'' go_docker_data old_row) \<and>
   map shown_id (fb_repositories (snd (firebase_update_repository ''2024-06-01 12:00:00'' ''u''
      go_docker_data stored_firebase))) = [7]"
proof -
  have 1: "faults stored_world = []" by (simp add: stored_world_def)
  have 0: "\<not> left_open stored_world" by (simp add: stored_world_def)
  have 2: "find (\<lambda>r. repo_url r = ''u'') (repositories stored_world) = Some old_row"
    by (simp add: stored_world_def old_row_def new_row_def)
  have 3: "outages stored_cloud = []" by (simp add: stored_cloud_def)
  have 4: "find (\<lambda>r. repo_url r = ''u'') (repo_items stored_cloud) = Some old_row"
    by (simp add: stored_cloud_def old_row_def new_row_def)
  have 5: "distinct (map repo_id (repo_items stored_cloud))" by (simp add: stored_cloud_def)
  have 6: "fb_outages stored_firebase = []" by (simp add: stored_firebase_def)
  have 7: "find (\<lambda>r. repo_url r = ''u'') (fb_repositories stored_firebase) = Some old_doc"
    by (simp add: stored_firebase_def old_doc_def old_row_def new_row_def repo_row.defs)
  have 8: "distinct (map repo_id (fb_repositories stored_firebase))"
    by (simp add: stored_firebase_def)
  have s: "shown_id old_doc = 7"
    by (simp add: shown_id_def old_doc_def old_row_def new_row_def repo_row.defs)
  from update_overwrites_and_keeps_tally [OF 1 0 2 3 4 5 6 7 8,
      of "''2024-06-01 12:00:00''" go_docker_data]
  show ?thesis
    using s by (simp add: stored_world_def stored_firebase_def)
qed

section \<open>Adding a repository twice\<close>

lemma add_repository_split:
  "add_repository now url rd w =
     (case retry_loop (\<lambda>w1. \<not> (\<exists>r \<in> set (repositories w1). repo_url r = url))
             (\<lambda>w1. (True, w1)) False 0 1.0 w of
        (True, w') \<Rightarrow> add_repository_body now url rd w' | (False, w') \<Rightarrow> (False, w'))"
  unfolding add_repository_def
  by (subst retry_loop_split) simp

lemma add_repository_cases:
  obtains w' where "repositories w' = repositories w" and "technologies w' = technologies w"
    and "next_repo_id w' = next_repo_id w"
    and "add_repository now url rd w = (False, w') \<or>
         add_repository now url rd w = add_repository_body now url rd w'"
proof -
  let ?loop = "retry_loop (\<lambda>w1. \<not> (\<exists>r \<in> set (repositories w1). repo_url r = url))
      (\<lambda>w1. (True, w1)) False 0 1.0 w"
  obtain b w' where g: "?loop = (b, w')" by (cases ?loop)
  have t: "repositories w' = repositories w" "technologies w' = technologies w"
    "next_repo_id w' = next_repo_id w"
    using retry_loop_tables
      [of "\<lambda>w1. \<not> (\<exists>r \<in> set (repositories w1). repo_url r = url)" True False 0 "1.0" w] g
    by simp_all
  have "add_repository now url rd w = (False, w') \<or>
      add_repository now url rd w = add_repository_body now url rd w'"
    using g by (cases b) (simp_all add: add_repository_split)
  with t that show thesis by blast
qed

lemma add_existing:
  assumes "url \<in> repo_url ` set (repositories w)"
  shows "\<not> fst (add_repository now url rd w)"
    and "repositories (snd (add_repository now url rd w)) = repositories w"
    and "technologies (snd (add_repository now url rd w)) = technologies w"
proof -
  obtain w' where t: "repositories w' = repositories w" "technologies w' = technologies w"
    and c: "add_repository now url rd w = (False, w') \<or>
         add_repository now url rd w = add_repository_body now url rd w'"
    by (rule add_repository_cases)
  have body: "add_repository_body now url rd w' = (False, w')"
    using assms t by (auto simp: add_repository_body_def)
  have r: "add_repository now url rd w = (False, w')"
    using c body by auto
  show "\<not> fst (add_repository now url rd w)"
    and "repositories (snd (add_repository now url rd w)) = repositories w"
    and "technologies (snd (add_repository now url rd w)) = technologies w"
    using r t by simp_all
qed

lemma add_new:
  assumes "faults w = []" and "\<not> left_open w"
    and "url \<notin> repo_url ` set (repositories w)"
    and "tech_stack_entries (d_custom_metadata rd) = Inr techs"
  shows "fst (add_repository now url rd w)"
    and "repositories (snd (add_repository now url rd w)) =
           repositories w @ [new_row (next_repo_id w) now url rd]"
proof -
  have r: "add_repository now url rd w =
      add_repository_body now url rd (w\<lparr>attempts := attempts w + 1\<rparr>)"
    using assms(1,2) by (simp add: add_repository_def retry_no_fault)
  show "fst (add_repository now url rd w)"
    using assms(3,4) unfolding r by (auto simp: add_repository_body_def Let_def)
  show "repositories (snd (add_repository now url rd w)) =
           repositories w @ [new_row (next_repo_id w) now url rd]"
    using assms(3) unfolding r by (simp add: add_repository_body_repositories)
qed

lemma cloud_update_technology_repo_items [simp]:
  "repo_items (cloud_update_technology n c) = repo_items c"
  by (auto simp: cloud_update_technology_def request_def split: list.splits bool.splits)

lemma foldl_cloud_repo_items [simp]:
  "repo_items (foldl (\<lambda>c' t. cloud_update_technology t c') c ts) = repo_items c"
  by (induction ts arbitrary: c) simp_all

lemma cloud_add_existing:
  assumes "url \<in> repo_url ` set (repo_items c)"
  shows "\<not> fst (cloud_add_repository now url rd c)"
    and "repo_items (snd (cloud_add_repository now url rd c)) = repo_items c"
    and "tech_items (snd (cloud_add_repository now url rd c)) = tech_items c"
  using assms
  by (auto simp: cloud_add_repository_def request_def split: list.splits bool.splits)

lemma cloud_add_new:
  assumes "outages c = []" and "url \<notin> repo_url ` set (repo_items c)"
    and "tech_stack_entries (d_custom_metadata rd) = Inr techs"
  shows "fst (cloud_add_repository now url rd c)"
    and "repo_items (snd (cloud_add_repository now url rd c)) =
           repo_items c @ [new_row (next_key c) now url rd]"
  using assms
  by (auto simp: cloud_add_repository_def request_def Let_def split: option.splits)

lemma new_row_url [simp]: "repo_url (new_row i now url rd) = url"
  by (simp add: new_row_def)

lemma one_record:
  assumes "url \<notin> repo_url ` set rows" and "distinct (map repo_url rows)"
  shows "length (filter (\<lambda>r. repo_url r = url) (rows @ [new_row i now url rd])) = 1"
    and "distinct (map repo_url (rows @ [new_row i now url rd]))"
proof -
  have "filter (\<lambda>r. repo_url r = url) rows = []"
    using assms(1) by (auto simp: filter_empty_conv)
  then show "length (filter (\<lambda>r. repo_url r = url) (rows @ [new_row i now url rd])) = 1"
    by simp
  show "distinct (map repo_url (rows @ [new_row i now url rd]))"
    using assms by auto
qed

text \<open>
  Claim C1 at its failing input. The metadata file says \<^verbatim>\<open>{"tech_stack": 5}\<close> and the
  language is Go. On a new store the first \<^verbatim>\<open>add_repository\<close> stores the row, and then
  \<^verbatim>\<open>for tech in 5\<close> raises \<^verbatim>\<open>TypeError\<close>, which \<^verbatim>\<open>except Exception\<close> turns into the
  result \<^verbatim>\<open>False\<close>: the call that added the record returns \<^verbatim>\<open>False\<close>, not \<^verbatim>\<open>True\<close>.
  The second call finds the row and returns \<^verbatim>\<open>False\<close> too, changing nothing. So the two
  calls yield \<^verbatim>\<open>False\<close>, \<^verbatim>\<open>False\<close> with one record stored, in the SQLite and the Deta
  backend alike.
\<close>

theorem first_add_reported_as_failed:
  "fst (add_repository ''t1'' ''u'' number_stack_data (empty_world [])) = False \<and>
   map repo_url
     (repositories (snd (add_repository ''t1'' ''u'' number_stack_data (empty_world [])))) =
     [''u''] \<and>
   fst (add_repository ''t2'' ''u'' number_stack_data
     (snd (add_repository ''t1'' ''u'' number_stack_data (empty_world [])))) = False \<and>
   repositories (snd (add_repository ''t2'' ''u'' number_stack_data
     (snd (add_repository ''t1'' ''u'' number_stack_data (empty_world []))))) =
     repositories (snd (add_repository ''t1'' ''u'' number_stack_data (empty_world []))) \<and>
   fst (cloud_add_repository ''t1'' ''u'' number_stack_data (empty_cloud [])) = False \<and>
   map repo_url
     (repo_items (snd (cloud_add_repository ''t1'' ''u'' number_stack_data (empty_cloud [])))) =
     [''u''] \<and>
   fst (cloud_add_repository ''t2'' ''u'' number_stack_data
     (snd (cloud_add_repository ''t1'' ''u'' number_stack_data (empty_cloud [])))) = False \<and>
   repo_items (snd (cloud_add_repository ''t2'' ''u'' number_stack_data
     (snd (cloud_add_repository ''t1'' ''u'' number_stack_data (empty_cloud []))))) =
     repo_items (snd (cloud_add_repository ''t1'' ''u'' number_stack_data (empty_cloud [])))"
proof -
  let ?w1 = "snd (add_repository ''t1'' ''u'' number_stack_data (empty_world []))"
  let ?c1 = "snd (cloud_add_repository ''t1'' ''u'' number_stack_data (empty_cloud []))"
  have a: "add_repository ''t1'' ''u'' number_stack_data (empty_world []) =
      (False,
       \<lparr>repositories = [new_row 1 ''t1'' ''u'' number_stack_data],
        technologies = [\<lparr>tech_id = 1, tech_name = ''Go'', tech_count = 1\<rparr>],
        next_repo_id = 2, next_tech_id = 2, faults = [], attempts = 2, sleeps = [],
        left_open = False, collector = []\<rparr>)"
    by (simp add: add_repository_def retry_no_fault empty_world_def add_repository_body_def
        number_stack_data_def sample_data_def tech_stack_entries_def update_technology_def
        increment_row_def Let_def)
  have c: "cloud_add_repository ''t1'' ''u'' number_stack_data (empty_cloud []) =
      (False,
       \<lparr>repo_items = [new_row 0 ''t1'' ''u'' number_stack_data],
        tech_items = [\<lparr>tech_id = 1, tech_name = JStr ''Go'', tech_count = 1\<rparr>],
        next_key = 2, outages = []\<rparr>)"
    by (simp add: cloud_add_repository_def request_def empty_cloud_def number_stack_data_def
        sample_data_def tech_stack_entries_def cloud_update_technology_def Let_def)
  have in1: "''u'' \<in> repo_url ` set (repositories ?w1)" by (simp add: a)
  have in2: "''u'' \<in> repo_url ` set (repo_items ?c1)" by (simp add: c)
  have 1: "fst (add_repository ''t1'' ''u'' number_stack_data (empty_world [])) = False"
    by (simp add: a)
  have 2: "map repo_url (repositories ?w1) = [''u'']" by (simp add: a)
  have 3: "fst (add_repository ''t2'' ''u'' number_stack_data ?w1) = False"
    using add_existing(1) [OF in1] by simp
  have 4: "repositories (snd (add_repository ''t2'' ''u'' number_stack_data ?w1)) =
      repositories ?w1"
    by (rule add_existing(2) [OF in1])
  have 5: "fst (cloud_add_repository ''t1'' ''u'' number_stack_data (empty_cloud [])) = False"
    by (simp add: c)
  have 6: "map repo_url (repo_items ?c1) = [''u'']" by (simp add: c)
  have 7: "fst (cloud_add_repository ''t2'' ''u'' number_stack_data ?c1) = False"
    using cloud_add_existing(1) [OF in2] by simp
  have 8: "repo_items (snd (cloud_add_repository ''t2'' ''u'' number_stack_data ?c1)) =
      repo_items ?c1"
    by (rule cloud_add_existing(2) [OF in2])
  from 1 2 3 4 5 6 7 8 show ?thesis by blast
qed

theorem first_add_reported_as_failed_witness:
  "\<not> fst (add_repository ''t1'' ''u'' number_stack_data (empty_world [])) \<and>
   length (repositories (snd (add_repository ''t1'' ''u'' number_stack_data (empty_world [])))) = 1"
proof -
  let ?w1 = "snd (add_repository ''t1'' ''u'' number_stack_data (empty_world []))"
  have f: "\<not> fst (add_repository ''t1'' ''u'' number_stack_data (empty_world []))"
    using first_add_reported_as_failed by simp
  have m: "map repo_url (repositories ?w1) = [''u'']"
    using first_add_reported_as_failed by blast
  have "length (repositories ?w1) = length (map repo_url (repositories ?w1))" by simp
  also have "\<dots> = 1" unfolding m by simp
  finally show ?thesis using f by simp
qed

text \<open>
  For data whose \<^verbatim>\<open>tech_stack\<close> is missing, falsy or can be iterated, adding twice does
  what the specification says, in the SQLite and the Deta backend: when the backend
  answers (in SQLite: no fault, and no connection left open with the write lock) and the
  url is not yet stored, the first \<^verbatim>\<open>add_repository\<close> returns \<^verbatim>\<open>True\<close>; a second one for
  the same url (with any data) returns \<^verbatim>\<open>False\<close> and changes neither the records nor the
  tally; afterwards exactly one record has this url, and urls that were distinct before are
  distinct still.
\<close>

theorem add_twice:
  assumes "faults w = []"
    and "\<not> left_open w"
    and "url \<notin> repo_url ` set (repositories w)"
    and "distinct (map repo_url (repositories w))"
    and "outages c = []"
    and "url \<notin> repo_url ` set (repo_items c)"
    and "distinct (map repo_url (repo_items c))"
    and "tech_stack_entries (d_custom_metadata rd) = Inr techs"
  shows "(let (first, w1) = add_repository now url rd w;
              (second, w2) = add_repository now' url rd' w1
          in first \<and> \<not> second \<and>
             repositories w2 = repositories w1 \<and> technologies w2 = technologies w1 \<and>
             length (filter (\<lambda>r. repo_url r = url) (repositories w2)) = 1 \<and>
             distinct (map repo_url (repositories w2))) \<and>
         (let (first, c1) = cloud_add_repository now url rd c;
              (second, c2) = cloud_add_repository now' url rd' c1
          in first \<and> \<not> second \<and>
             repo_items c2 = repo_items c1 \<and> tech_items c2 = tech_items c1 \<and>
             length (filter (\<lambda>r. repo_url r = url) (repo_items c2)) = 1 \<and>
             distinct (map repo_url (repo_items c2)))"
proof -
  let ?w1 = "snd (add_repository now url rd w)"
  let ?c1 = "snd (cloud_add_repository now url rd c)"
  have r1: "repositories ?w1 = repositories w @ [new_row (next_repo_id w) now url rd]"
    by (rule add_new(2) [OF assms(1,2,3,8)])
  then have in1: "url \<in> repo_url ` set (repositories ?w1)" by simp
  have i1: "repo_items ?c1 = repo_items c @ [new_row (next_key c) now url rd]"
    by (rule cloud_add_new(2) [OF assms(5,6,8)])
  then have in2: "url \<in> repo_url ` set (repo_items ?c1)" by simp
  have sqlite: "fst (add_repository now url rd w) \<and>
      \<not> fst (add_repository now' url rd' ?w1) \<and>
      repositories (snd (add_repository now' url rd' ?w1)) = repositories ?w1 \<and>
      technologies (snd (add_repository now' url rd' ?w1)) = technologies ?w1 \<and>
      length (filter (\<lambda>r. repo_url r = url) (repositories ?w1)) = 1 \<and>
      distinct (map repo_url (repositories ?w1))"
    using add_new(1) [OF assms(1,2,3,8)] add_existing [OF in1, of now' rd']
      one_record [OF assms(3,4), of "next_repo_id w" now rd]
    by (simp only: r1 simp_thms)
  have deta: "fst (cloud_add_repository now url rd c) \<and>
      \<not> fst (cloud_add_repository now' url rd' ?c1) \<and>
      repo_items (snd (cloud_add_repository now' url rd' ?c1)) = repo_items ?c1 \<and>
      tech_items (snd (cloud_add_repository now' url rd' ?c1)) = tech_items ?c1 \<and>
      length (filter (\<lambda>r. repo_url r = url) (repo_items ?c1)) = 1 \<and>
      distinct (map repo_url (repo_items ?c1))"
    using cloud_add_new(1) [OF assms(5,6,8)] cloud_add_existing [OF in2, of now' rd']
      one_record [OF assms(6,7), of "next_key c" now rd]
    by (simp only: i1 simp_thms)
  show ?thesis
    using sqlite deta by (simp add: Let_def case_prod_beta)
qed

theorem add_twice_witness:
  "fst (add_repository ''t1'' ''u'' go_docker_data (empty_world [])) \<and>
   \<not> fst (add_repository ''t2'' ''u'' go_docker_data
        (snd (add_repository ''t1'' ''u'' go_docker_data (empty_world [])))) \<and>
   length (filter (\<lambda>r. repo_url r = ''u'')
     (repo_items (snd (cloud_add_repository ''t2'' ''u'' go_docker_data
        (snd (cloud_add_repository ''t1'' ''u'' go_docker_data (empty_cloud []))))))) = 1"
proof -
  have t: "tech_stack_entries (d_custom_metadata go_docker_data) = Inr [JStr ''Go'', JStr ''Docker'']"
    by (simp add: go_docker_data_def sample_data_def tech_stack_entries_def)
  have "faults (empty_world []) = []" "\<not> left_open (empty_world [])"
    "''u'' \<notin> repo_url ` set (repositories (empty_world []))"
    "distinct (map repo_url (repositories (empty_world [])))"
    "outages (empty_cloud []) = []" "''u'' \<notin> repo_url ` set (repo_items (empty_cloud []))"
    "distinct (map repo_url (repo_items (empty_cloud [])))"
    by (simp_all add: empty_world_def empty_cloud_def)
  from add_twice [OF this t, of "''t1''" "''t2''" go_docker_data]
  show ?thesis
    unfolding Let_def case_prod_beta by blast
qed

section \<open>The tally on a list of rows\<close>

lemma count_of_Nil [simp]: "count_of n [] = None"
  by (simp add: count_of_def)

lemma count_of_Cons [simp]:
  "count_of n (r # rows) = (if tech_name r = n then Some (tech_count r) else count_of n rows)"
  by (simp add: count_of_def)

lemma count_of_None: "count_of n rows = None \<longleftrightarrow> n \<notin> tech_name ` set rows"
  by (induction rows) auto

lemma count_of_append:
  "count_of m (rows @ [x]) =
     (case count_of m rows of
        Some k \<Rightarrow> Some k
      | None \<Rightarrow> if tech_name x = m then Some (tech_count x) else None)"
  by (induction rows) auto

lemma count_of_map_inc:
  "count_of m (map (\<lambda>r. if tech_name r = n then r\<lparr>tech_count := tech_count r + 1\<rparr> else r) rows) =
     (if m = n then map_option (\<lambda>k. k + 1) (count_of m rows) else count_of m rows)"
  by (induction rows) auto

lemma stored_inc_list:
  "stored m (inc_list n i rows) = (if m = n then stored m rows + 1 else stored m rows)"
proof (cases "\<exists>r \<in> set rows. tech_name r = n")
  case True
  then have "count_of n rows \<noteq> None" by (auto simp: count_of_None)
  with True show ?thesis
    by (auto simp: stored_def inc_list_def count_of_map_inc split: option.splits)
next
  case False
  then have "count_of n rows = None" by (auto simp: count_of_None)
  with False show ?thesis
    by (auto simp: stored_def inc_list_def count_of_append split: option.splits)
qed

lemma tally_inv_inc_list: "tally_inv rows \<Longrightarrow> tally_inv (inc_list n i rows)"
proof -
  assume a: "tally_inv rows"
  have names: "map tech_name
      (map (\<lambda>r. if tech_name r = n then r\<lparr>tech_count := tech_count r + 1\<rparr> else r) rows) =
      map tech_name rows"
    by (induction rows) auto
  show ?thesis
    using a names
    by (auto simp: tally_inv_def inc_list_def list_all_iff simp del: map_map)
qed

lemma dec_list_absent:
  "n \<notin> tech_name ` set rows \<Longrightarrow> list_all (\<lambda>r. 1 \<le> tech_count r) rows \<Longrightarrow> dec_list n rows = rows"
  by (induction rows) (auto simp: dec_list_def)

lemma dec_list_Cons:
  "dec_list n (r # rows) =
     (if tech_name r = n
      then (if tech_count r - 1 \<le> 0 then [] else [r\<lparr>tech_count := tech_count r - 1\<rparr>])
      else (if tech_count r \<le> 0 then [] else [r])) @ dec_list n rows"
  by (simp add: dec_list_def)

lemma dec_list_names: "tech_name ` set (dec_list n rows) \<subseteq> tech_name ` set rows"
  by (induction rows) (auto simp: dec_list_Cons dec_list_def split: if_splits)

lemma tally_inv_dec_list: "tally_inv rows \<Longrightarrow> tally_inv (dec_list n rows)"
proof (induction rows)
  case Nil
  then show ?case by (simp add: dec_list_def tally_inv_def)
next
  case (Cons r rows)
  then have ih: "tally_inv (dec_list n rows)" and fresh: "tech_name r \<notin> tech_name ` set rows"
    and pos: "1 \<le> tech_count r"
    by (auto simp: tally_inv_def)
  from fresh have "tech_name r \<notin> tech_name ` set (dec_list n rows)"
    using dec_list_names [of n rows] by blast
  with ih pos show ?case
    by (auto simp: dec_list_Cons tally_inv_def)
qed

lemma stored_dec_list:
  "tally_inv rows \<Longrightarrow>
   stored m (dec_list n rows) =
     (if m = n then (if stored m rows - 1 \<le> 0 then 0 else stored m rows - 1) else stored m rows)"
proof (induction rows)
  case Nil
  then show ?case by (simp add: dec_list_def stored_def)
next
  case (Cons r rows)
  then have inv: "tally_inv rows" and fresh: "tech_name r \<notin> tech_name ` set rows"
    and pos: "1 \<le> tech_count r" and all: "list_all (\<lambda>r. 1 \<le> tech_count r) rows"
    by (auto simp: tally_inv_def)
  show ?case
  proof (cases "tech_name r = n")
    case True
    then have rest: "dec_list n rows = rows"
      using fresh all by (simp add: dec_list_absent)
    have none: "count_of n rows = None"
      using fresh True by (simp add: count_of_None)
    show ?thesis
      using True rest none pos
      by (auto simp: dec_list_Cons stored_def)
  next
    case False
    then show ?thesis
      using Cons.IH [OF inv] pos
      by (auto simp: dec_list_Cons stored_def)
  qed
qed

lemma count_of_stored:
  "tally_inv rows \<Longrightarrow>
   count_of n rows = (if stored n rows \<le> 0 then None else Some (stored n rows))"
proof -
  assume a: "tally_inv rows"
  have "\<And>k. count_of n rows = Some k \<Longrightarrow> 1 \<le> k"
    using a by (induction rows) (auto simp: tally_inv_def split: if_splits)
  then show ?thesis
    by (cases "count_of n rows") (auto simp: stored_def)
qed

lemma logical_step_inc: "logical_step n k (Increment m) = (if m = n then k + 1 else k)"
  by (simp add: logical_step_def)

lemma logical_step_dec:
  "logical_step n k (Decrement m) = (if m = n then (if k - 1 \<le> 0 then 0 else k - 1) else k)"
  by (simp add: logical_step_def)

section \<open>The tally in SQLite\<close>

lemma technologies_increment_row:
  "technologies (increment_row n w) = inc_list n (next_tech_id w) (technologies w)"
  by (simp add: increment_row_def inc_list_def)

lemma technologies_decrement_rows:
  "technologies (decrement_rows n w) = dec_list n (technologies w)"
  by (simp add: decrement_rows_def dec_list_def)

lemma sqlite_apply_inv:
  "tally_inv (technologies w) \<Longrightarrow> tally_inv (technologies (sqlite_apply op w))"
proof (cases op)
  case (Increment n)
  assume a: "tally_inv (technologies w)"
  obtain b w' where g: "gets_through w = (b, w')" by (cases "gets_through w")
  have t: "technologies w' = technologies w"
    using gets_through_tables [of w] g by simp
  show ?thesis
    using a g t
    by (cases b) (simp_all add: Increment update_technology_split technologies_increment_row
        tally_inv_inc_list)
next
  case (Decrement n)
  assume a: "tally_inv (technologies w)"
  obtain b w' where g: "gets_through w = (b, w')" by (cases "gets_through w")
  have t: "technologies w' = technologies w"
    using gets_through_tables [of w] g by simp
  show ?thesis
    using a g t
    by (cases b) (simp_all add: Decrement decrease_split technologies_decrement_rows
        tally_inv_dec_list)
qed

lemma sqlite_apply_exact:
  assumes "faults w = []" and "\<not> left_open w" and "tally_inv (technologies w)"
  shows "faults (sqlite_apply op w) = []"
    and "\<not> left_open (sqlite_apply op w)"
    and "stored n (technologies (sqlite_apply op w)) = logical_step n (stored n (technologies w)) op"
proof -
  have g: "gets_through w = (True, w\<lparr>attempts := attempts w + 1\<rparr>)"
    using assms(1,2) by (rule gets_through_no_fault)
  show "faults (sqlite_apply op w) = []"
    using assms(1) g
    by (cases op) (simp_all add: update_technology_split decrease_split)
  show "\<not> left_open (sqlite_apply op w)"
    using assms(2) g
    by (cases op) (simp_all add: update_technology_split decrease_split)
  show "stored n (technologies (sqlite_apply op w)) = logical_step n (stored n (technologies w)) op"
    using g assms(3)
    by (cases op)
      (auto simp: update_technology_split decrease_split technologies_increment_row
        technologies_decrement_rows stored_inc_list stored_dec_list logical_step_inc
        logical_step_dec)
qed

lemma sqlite_run_inv:
  "tally_inv (technologies w) \<Longrightarrow>
   tally_inv (technologies (foldl (\<lambda>w' op. sqlite_apply op w') w ops))"
  by (induction ops arbitrary: w) (simp_all add: sqlite_apply_inv)

lemma sqlite_run_exact:
  "faults w = [] \<Longrightarrow> \<not> left_open w \<Longrightarrow> tally_inv (technologies w) \<Longrightarrow>
   stored n (technologies (foldl (\<lambda>w' op. sqlite_apply op w') w ops)) =
     foldl (logical_step n) (stored n (technologies w)) ops"
proof (induction ops arbitrary: w)
  case Nil
  then show ?case by simp
next
  case (Cons op ops)
  have "faults (sqlite_apply op w) = []" "\<not> left_open (sqlite_apply op w)"
    "tally_inv (technologies (sqlite_apply op w))"
    using Cons.prems by (simp_all add: sqlite_apply_exact sqlite_apply_inv)
  from Cons.IH [OF this] show ?case
    using Cons.prems by (simp add: sqlite_apply_exact)
qed

section \<open>The tally in Deta\<close>

lemma first_match:
  assumes "filter (\<lambda>t. tech_name t = n) items = tech # rest"
  shows "tech \<in> set items" and "tech_name tech = n"
proof -
  have "tech \<in> set (filter (\<lambda>t. tech_name t = n) items)"
    unfolding assms by simp
  then show "tech \<in> set items" and "tech_name tech = n" by auto
qed

lemma same_name_same_row:
  assumes "distinct (map tech_name items)" and "x \<in> set items" and "y \<in> set items"
    and "tech_name x = tech_name y"
  shows "x = y"
  using assms by (meson distinct_map inj_onD)

lemma same_key_same_row:
  assumes "distinct (map tech_id items)" and "x \<in> set items" and "y \<in> set items"
    and "tech_id x = tech_id y"
  shows "x = y"
  using assms by (meson distinct_map inj_onD)

lemma by_key_is_by_name:
  assumes "cloud_inv c" and "tech \<in> set (tech_items c)" and "tech_name tech = n"
    and "t \<in> set (tech_items c)"
  shows "tech_id t = tech_id tech \<longleftrightarrow> tech_name t = n"
proof
  assume "tech_id t = tech_id tech"
  then have "t = tech"
    using assms same_key_same_row [of "tech_items c" t tech] by (simp add: cloud_inv_def)
  then show "tech_name t = n" using assms(3) by simp
next
  assume "tech_name t = n"
  then have "t = tech"
    using assms same_name_same_row [of "tech_items c" t tech]
    by (simp add: cloud_inv_def tally_inv_def)
  then show "tech_id t = tech_id tech" by simp
qed

lemma cloud_inc_found:
  assumes inv: "cloud_inv c" and f: "filter (\<lambda>t. tech_name t = n) (tech_items c) = tech # rest"
  shows "map (\<lambda>t. if tech_id t = tech_id tech then t\<lparr>tech_count := tech_count tech + 1\<rparr> else t)
           (tech_items c) = inc_list n i (tech_items c)"
proof -
  note m = first_match [OF f]
  have ex: "\<exists>r \<in> set (tech_items c). tech_name r = n" using m by blast
  have "map (\<lambda>t. if tech_id t = tech_id tech then t\<lparr>tech_count := tech_count tech + 1\<rparr> else t)
           (tech_items c) =
        map (\<lambda>r. if tech_name r = n then r\<lparr>tech_count := tech_count r + 1\<rparr> else r) (tech_items c)"
  proof (rule map_cong [OF refl])
    fix t assume t: "t \<in> set (tech_items c)"
    show "(if tech_id t = tech_id tech then t\<lparr>tech_count := tech_count tech + 1\<rparr> else t) =
          (if tech_name t = n then t\<lparr>tech_count := tech_count t + 1\<rparr> else t)"
    proof (cases "tech_name t = n")
      case True
      then have "t = tech"
        using inv m t same_name_same_row [of "tech_items c" t tech]
        by (simp add: cloud_inv_def tally_inv_def)
      then show ?thesis using m by simp
    next
      case False
      then show ?thesis using by_key_is_by_name [OF inv m t] by simp
    qed
  qed
  then show ?thesis using ex by (simp add: inc_list_def)
qed

lemma cloud_inc_missing:
  assumes "filter (\<lambda>t. tech_name t = n) (tech_items c) = []"
  shows "tech_items c @ [\<lparr>tech_id = i, tech_name = n, tech_count = 1\<rparr>] = inc_list n i (tech_items c)"
proof -
  have "\<not> (\<exists>r \<in> set (tech_items c). tech_name r = n)"
    using assms by (auto simp: filter_empty_conv)
  then show ?thesis by (simp add: inc_list_def)
qed

lemma dec_list_delete:
  assumes "tally_inv rows" and "tech \<in> set rows" and "tech_name tech = n"
    and "tech_count tech \<le> 1"
  shows "dec_list n rows = filter (\<lambda>t. tech_name t \<noteq> n) rows"
  using assms
proof (induction rows)
  case Nil
  then show ?case by simp
next
  case (Cons r rows)
  then have inv: "tally_inv rows" and fresh: "tech_name r \<notin> tech_name ` set rows"
    and pos: "1 \<le> tech_count r" and all: "list_all (\<lambda>r. 1 \<le> tech_count r) rows"
    by (auto simp: tally_inv_def)
  show ?case
  proof (cases "tech_name r = n")
    case True
    then have absent: "n \<notin> tech_name ` set rows" using fresh by simp
    then have "tech = r" using Cons.prems(2,3) by auto
    moreover have "dec_list n rows = rows" using absent all by (simp add: dec_list_absent)
    moreover have "filter (\<lambda>t. tech_name t \<noteq> n) rows = rows"
      using absent by (auto simp: filter_id_conv)
    ultimately show ?thesis using True Cons.prems(4) by (simp add: dec_list_Cons)
  next
    case False
    then have "tech \<in> set rows" using Cons.prems(2,3) by auto
    from Cons.IH [OF inv this Cons.prems(3,4)] show ?thesis
      using False pos by (simp add: dec_list_Cons)
  qed
qed

lemma dec_list_lower:
  assumes "tally_inv rows" and "tech \<in> set rows" and "tech_name tech = n"
    and "\<not> tech_count tech \<le> 1"
  shows "dec_list n rows =
     map (\<lambda>r. if tech_name r = n then r\<lparr>tech_count := tech_count r - 1\<rparr> else r) rows"
  using assms
proof (induction rows)
  case Nil
  then show ?case by simp
next
  case (Cons r rows)
  then have inv: "tally_inv rows" and fresh: "tech_name r \<notin> tech_name ` set rows"
    and pos: "1 \<le> tech_count r" and all: "list_all (\<lambda>r. 1 \<le> tech_count r) rows"
    by (auto simp: tally_inv_def)
  show ?case
  proof (cases "tech_name r = n")
    case True
    then have absent: "n \<notin> tech_name ` set rows" using fresh by simp
    then have "tech = r" using Cons.prems(2,3) by auto
    moreover have "dec_list n rows = rows" using absent all by (simp add: dec_list_absent)
    moreover have "map (\<lambda>r. if tech_name r = n then r\<lparr>tech_count := tech_count r - 1\<rparr> else r) rows
        = rows"
      using absent by (intro map_idI) auto
    ultimately show ?thesis using True Cons.prems(4) by (simp add: dec_list_Cons)
  next
    case False
    then have "tech \<in> set rows" using Cons.prems(2,3) by auto
    from Cons.IH [OF inv this Cons.prems(3,4)] show ?thesis
      using False pos by (simp add: dec_list_Cons)
  qed
qed

lemma cloud_dec_found:
  assumes inv: "cloud_inv c" and f: "filter (\<lambda>t. tech_name t = n) (tech_items c) = tech # rest"
  shows "(if tech_count tech \<le> 1
          then filter (\<lambda>t. tech_id t \<noteq> tech_id tech) (tech_items c)
          else map (\<lambda>t. if tech_id t = tech_id tech then t\<lparr>tech_count := tech_count tech - 1\<rparr> else t)
                 (tech_items c)) = dec_list n (tech_items c)"
proof -
  note m = first_match [OF f]
  have ti: "tally_inv (tech_items c)" using inv by (simp add: cloud_inv_def)
  show ?thesis
  proof (cases "tech_count tech \<le> 1")
    case True
    have "filter (\<lambda>t. tech_id t \<noteq> tech_id tech) (tech_items c) =
          filter (\<lambda>t. tech_name t \<noteq> n) (tech_items c)"
      by (rule filter_cong [OF refl]) (simp add: by_key_is_by_name [OF inv m])
    then show ?thesis
      using True dec_list_delete [OF ti m True] by simp
  next
    case False
    have "map (\<lambda>t. if tech_id t = tech_id tech then t\<lparr>tech_count := tech_count tech - 1\<rparr> else t)
            (tech_items c) =
          map (\<lambda>r. if tech_name r = n then r\<lparr>tech_count := tech_count r - 1\<rparr> else r) (tech_items c)"
    proof (rule map_cong [OF refl])
      fix t assume t: "t \<in> set (tech_items c)"
      show "(if tech_id t = tech_id tech then t\<lparr>tech_count := tech_count tech - 1\<rparr> else t) =
            (if tech_name t = n then t\<lparr>tech_count := tech_count t - 1\<rparr> else t)"
      proof (cases "tech_name t = n")
        case True
        then have "t = tech"
          using ti m t same_name_same_row [of "tech_items c" t tech]
          by (simp add: tally_inv_def)
        then show ?thesis using m by simp
      next
        case False
        then show ?thesis using by_key_is_by_name [OF inv m t] by simp
      qed
    qed
    then show ?thesis
      using False dec_list_lower [OF ti m False] by simp
  qed
qed

lemma cloud_dec_missing:
  assumes "cloud_inv c" and "filter (\<lambda>t. tech_name t = n) (tech_items c) = []"
  shows "tech_items c = dec_list n (tech_items c)"
proof -
  have "n \<notin> tech_name ` set (tech_items c)"
    using assms(2) by (auto simp: filter_empty_conv)
  then show ?thesis
    using assms(1) by (simp add: dec_list_absent cloud_inv_def tally_inv_def)
qed

lemma ids_inc_list:
  "map tech_id (inc_list n i rows) =
     (if \<exists>r \<in> set rows. tech_name r = n then map tech_id rows else map tech_id rows @ [i])"
proof -
  have "map tech_id (map (\<lambda>r. if tech_name r = n then r\<lparr>tech_count := tech_count r + 1\<rparr> else r) rows)
      = map tech_id rows"
    by (induction rows) auto
  then show ?thesis by (simp add: inc_list_def del: map_map)
qed

lemma ids_dec_list:
  "map tech_id (dec_list n rows) =
     map tech_id (filter (\<lambda>r. \<not> (if tech_name r = n then tech_count r - 1 else tech_count r) \<le> 0) rows)"
proof (induction rows)
  case Nil
  then show ?case by (simp add: dec_list_def)
next
  case (Cons r rows)
  then show ?case by (simp add: dec_list_Cons)
qed

lemma cloud_inv_inc:
  assumes "cloud_inv c" and "tech_items c' = inc_list n (next_key c) (tech_items c)"
    and "next_key c' = (if \<exists>r \<in> set (tech_items c). tech_name r = n then next_key c else next_key c + 1)"
  shows "cloud_inv c'"
proof -
  have ti: "tally_inv (tech_items c')"
    using assms(1,2) by (simp add: cloud_inv_def tally_inv_inc_list)
  have fresh: "next_key c \<notin> tech_id ` set (tech_items c)"
    using assms(1) by (auto simp: cloud_inv_def list_all_iff)
  have d: "distinct (map tech_id (tech_items c'))"
    using assms(1) fresh unfolding assms(2) ids_inc_list by (auto simp: cloud_inv_def)
  have "\<forall>i \<in> set (map tech_id (tech_items c')). i < next_key c'"
    using assms(1) unfolding assms(2,3) ids_inc_list
    by (auto simp: cloud_inv_def list_all_iff)
  then have k: "list_all (\<lambda>t. tech_id t < next_key c') (tech_items c')"
    by (simp add: list_all_iff)
  from ti d k show ?thesis by (simp add: cloud_inv_def)
qed

lemma cloud_inv_dec:
  assumes "cloud_inv c" and "tech_items c' = dec_list n (tech_items c)"
    and "next_key c' = next_key c"
  shows "cloud_inv c'"
proof -
  have ti: "tally_inv (tech_items c')"
    using assms(1,2) by (simp add: cloud_inv_def tally_inv_dec_list)
  have d: "distinct (map tech_id (tech_items c'))"
    using assms(1) unfolding assms(2) ids_dec_list
    by (simp add: cloud_inv_def distinct_map_filter)
  have "\<forall>i \<in> set (map tech_id (tech_items c')). i < next_key c'"
    using assms(1) unfolding assms(2,3) ids_dec_list
    by (auto simp: cloud_inv_def list_all_iff)
  then have k: "list_all (\<lambda>t. tech_id t < next_key c') (tech_items c')"
    by (simp add: list_all_iff)
  from ti d k show ?thesis by (simp add: cloud_inv_def)
qed

lemma cloud_inv_same:
  "cloud_inv c \<Longrightarrow> tech_items c' = tech_items c \<Longrightarrow> next_key c' = next_key c \<Longrightarrow> cloud_inv c'"
  by (simp add: cloud_inv_def)

lemma request_fields [simp]:
  "tech_items (snd (request c)) = tech_items c"
  "next_key (snd (request c)) = next_key c"
  "repo_items (snd (request c)) = repo_items c"
  by (simp_all add: request_def split: list.splits)

lemma request_no_outage:
  "outages c = [] \<Longrightarrow> request c = (False, c)"
  by (simp add: request_def)

lemma cloud_update_outcome:
  assumes "cloud_inv c"
  shows "(tech_items (cloud_update_technology n c) = tech_items c \<and>
          next_key (cloud_update_technology n c) = next_key c) \<or>
         (tech_items (cloud_update_technology n c) = inc_list n (next_key c) (tech_items c) \<and>
          next_key (cloud_update_technology n c) =
            (if \<exists>r \<in> set (tech_items c). tech_name r = n then next_key c else next_key c + 1))"
proof -
  obtain b1 c1 where r1: "request c = (b1, c1)" by (cases "request c")
  obtain b2 c2 where r2: "request c1 = (b2, c2)" by (cases "request c1")
  have f1: "tech_items c1 = tech_items c" "next_key c1 = next_key c"
    using request_fields [of c] r1 by simp_all
  have f2: "tech_items c2 = tech_items c" "next_key c2 = next_key c"
    using request_fields [of c1] r2 f1 by simp_all
  show ?thesis
  proof (cases "filter (\<lambda>t. tech_name t = n) (tech_items c)")
    case Nil
    then have no: "\<not> (\<exists>r \<in> set (tech_items c). tech_name r = n)"
      by (auto simp: filter_empty_conv)
    show ?thesis
      using r1 r2 f1 f2 Nil no cloud_inc_missing [OF Nil, of "next_key c"]
      by (cases b1; cases b2) (simp_all add: cloud_update_technology_def)
  next
    case (Cons tech rest)
    then have yes: "\<exists>r \<in> set (tech_items c). tech_name r = n"
      using first_match [OF Cons] by blast
    show ?thesis
      using r1 r2 f1 f2 Cons yes cloud_inc_found [OF assms Cons, of "next_key c"]
      by (cases b1; cases b2) (simp_all add: cloud_update_technology_def)
  qed
qed

lemma cloud_decrease_outcome:
  assumes "cloud_inv c"
  shows "tech_items (cloud_decrease_technology_count n c) = tech_items c \<or>
         tech_items (cloud_decrease_technology_count n c) = dec_list n (tech_items c)"
    and "next_key (cloud_decrease_technology_count n c) = next_key c"
proof -
  obtain b1 c1 where r1: "request c = (b1, c1)" by (cases "request c")
  obtain b2 c2 where r2: "request c1 = (b2, c2)" by (cases "request c1")
  have f1: "tech_items c1 = tech_items c" "next_key c1 = next_key c"
    using request_fields [of c] r1 by simp_all
  have f2: "tech_items c2 = tech_items c" "next_key c2 = next_key c"
    using request_fields [of c1] r2 f1 by simp_all
  show "tech_items (cloud_decrease_technology_count n c) = tech_items c \<or>
         tech_items (cloud_decrease_technology_count n c) = dec_list n (tech_items c)"
  proof (cases "filter (\<lambda>t. tech_name t = n) (tech_items c)")
    case Nil
    show ?thesis
      using r1 f1 Nil by (cases b1) (simp_all add: cloud_decrease_technology_count_def)
  next
    case (Cons tech rest)
    show ?thesis
      using r1 r2 f1 f2 Cons cloud_dec_found [OF assms Cons]
      by (cases b1; cases b2) (auto simp: cloud_decrease_technology_count_def)
  qed
  show "next_key (cloud_decrease_technology_count n c) = next_key c"
    using r1 r2 f1 f2
    by (cases b1; cases b2; cases "filter (\<lambda>t. tech_name t = n) (tech_items c)")
      (simp_all add: cloud_decrease_technology_count_def)
qed

lemma cloud_apply_inv: "cloud_inv c \<Longrightarrow> cloud_inv (cloud_apply op c)"
proof (cases op)
  case (Increment n)
  assume a: "cloud_inv c"
  from cloud_update_outcome [OF a, of "JStr n"] show ?thesis
    using a unfolding Increment cloud_apply.simps
    by (metis cloud_inv_inc cloud_inv_same)
next
  case (Decrement n)
  assume a: "cloud_inv c"
  from cloud_decrease_outcome [OF a, of "JStr n"] show ?thesis
    using a unfolding Decrement cloud_apply.simps
    by (metis cloud_inv_dec cloud_inv_same)
qed

lemma cloud_apply_exact:
  assumes "outages c = []" and "cloud_inv c"
  shows "outages (cloud_apply op c) = []"
    and "stored (JStr n) (tech_items (cloud_apply op c)) =
           logical_step n (stored (JStr n) (tech_items c)) op"
proof -
  have r: "request c = (False, c)" using assms(1) by (rule request_no_outage)
  show "outages (cloud_apply op c) = []"
    using assms(1) r
    by (cases op; cases "filter (\<lambda>t. tech_name t = JStr (case op of Increment m \<Rightarrow> m | Decrement m \<Rightarrow> m))
          (tech_items c)")
      (simp_all add: cloud_update_technology_def cloud_decrease_technology_count_def)
  show "stored (JStr n) (tech_items (cloud_apply op c)) =
           logical_step n (stored (JStr n) (tech_items c)) op"
  proof (cases op)
    case (Increment m)
    have "tech_items (cloud_update_technology (JStr m) c) =
        inc_list (JStr m) (next_key c) (tech_items c)"
    proof (cases "filter (\<lambda>t. tech_name t = JStr m) (tech_items c)")
      case Nil
      then show ?thesis
        using r cloud_inc_missing [OF Nil, of "next_key c"]
        by (simp add: cloud_update_technology_def)
    next
      case (Cons tech rest)
      then show ?thesis
        using r cloud_inc_found [OF assms(2) Cons, of "next_key c"]
        by (simp add: cloud_update_technology_def)
    qed
    then show ?thesis
      by (simp add: Increment stored_inc_list logical_step_inc)
  next
    case (Decrement m)
    have ti: "tally_inv (tech_items c)" using assms(2) by (simp add: cloud_inv_def)
    have "tech_items (cloud_decrease_technology_count (JStr m) c) = dec_list (JStr m) (tech_items c)"
    proof (cases "filter (\<lambda>t. tech_name t = JStr m) (tech_items c)")
      case Nil
      then show ?thesis
        using r cloud_dec_missing [OF assms(2) Nil]
        by (simp add: cloud_decrease_technology_count_def)
    next
      case (Cons tech rest)
      then show ?thesis
        using r cloud_dec_found [OF assms(2) Cons]
        by (auto simp: cloud_decrease_technology_count_def)
    qed
    then show ?thesis
      using ti by (simp add: Decrement stored_dec_list logical_step_dec)
  qed
qed

lemma cloud_run_inv:
  "cloud_inv c \<Longrightarrow> cloud_inv (foldl (\<lambda>c' op. cloud_apply op c') c ops)"
  by (induction ops arbitrary: c) (simp_all add: cloud_apply_inv)

lemma cloud_run_exact:
  "outages c = [] \<Longrightarrow> cloud_inv c \<Longrightarrow>
   stored (JStr n) (tech_items (foldl (\<lambda>c' op. cloud_apply op c') c ops)) =
     foldl (logical_step n) (stored (JStr n) (tech_items c)) ops"
proof (induction ops arbitrary: c)
  case Nil
  then show ?case by simp
next
  case (Cons op ops)
  have "outages (cloud_apply op c) = []" "cloud_inv (cloud_apply op c)"
    using Cons.prems by (simp_all add: cloud_apply_exact cloud_apply_inv)
  from Cons.IH [OF this] show ?case
    using Cons.prems by (simp add: cloud_apply_exact)
qed

section \<open>The tally in Firestore\<close>

lemma filter_as_doc:
  "filter (\<lambda>t. tech_name t = Some n) (map as_doc items) =
     map as_doc (filter (\<lambda>t. tech_name t = n) items)"
  by (induction items) (auto simp: as_doc_def)

lemma as_doc_fields [simp]:
  "tech_id (as_doc t) = tech_id t"
  "get_count (as_doc t) = tech_count t"
  by (simp_all add: as_doc_def get_count_def)

lemma as_doc_update [simp]:
  "(as_doc t)\<lparr>tech_count := Some k\<rparr> = as_doc (t\<lparr>tech_count := k\<rparr>)"
  by (simp add: as_doc_def)

lemma mirrors_request:
  assumes "mirrors f c"
  shows "fst (fb_request f) = fst (request c)" and "mirrors (snd (fb_request f)) (snd (request c))"
  using assms by (auto simp: mirrors_def fb_request_def request_def split: list.splits)

lemma mirrors_update:
  assumes "mirrors f c"
  shows "mirrors (firebase_update_technology n f) (cloud_update_technology n c)"
proof -
  obtain b1 f1 where q1: "fb_request f = (b1, f1)" by (cases "fb_request f")
  obtain b1' c1 where r1: "request c = (b1', c1)" by (cases "request c")
  have e1: "b1' = b1" and m1: "mirrors f1 c1"
    using mirrors_request [OF assms] q1 r1 by simp_all
  obtain b2 f2 where q2: "fb_request f1 = (b2, f2)" by (cases "fb_request f1")
  obtain b2' c2 where r2: "request c1 = (b2', c2)" by (cases "request c1")
  have e2: "b2' = b2" and m2: "mirrors f2 c2"
    using mirrors_request [OF m1] q2 r2 by simp_all
  have t1: "fb_technologies f1 = map as_doc (tech_items c1)" using m1 by (simp add: mirrors_def)
  show ?thesis
  proof (cases "filter (\<lambda>t. tech_name t = n) (tech_items c1)")
    case Nil
    then have "filter (\<lambda>t. tech_name t = Some n) (fb_technologies f1) = []"
      by (simp add: t1 filter_as_doc)
    then show ?thesis
      using q1 r1 e1 m1 q2 r2 e2 m2 Nil
      by (cases b1; cases b2)
        (simp_all add: firebase_update_technology_def cloud_update_technology_def,
          simp add: mirrors_def as_doc_def)
  next
    case (Cons tech rest)
    then have "filter (\<lambda>t. tech_name t = Some n) (fb_technologies f1) =
        as_doc tech # map as_doc rest"
      by (simp add: t1 filter_as_doc)
    then show ?thesis
      using q1 r1 e1 m1 q2 r2 e2 m2 Cons
      by (cases b1; cases b2)
        (simp_all add: firebase_update_technology_def cloud_update_technology_def,
          simp add: mirrors_def o_def if_distrib [of as_doc] cong: if_cong)
  qed
qed

lemma mirrors_decrease:
  assumes "mirrors f c"
  shows "mirrors (firebase_decrease_technology_count n f) (cloud_decrease_technology_count n c)"
proof -
  obtain b1 f1 where q1: "fb_request f = (b1, f1)" by (cases "fb_request f")
  obtain b1' c1 where r1: "request c = (b1', c1)" by (cases "request c")
  have e1: "b1' = b1" and m1: "mirrors f1 c1"
    using mirrors_request [OF assms] q1 r1 by simp_all
  obtain b2 f2 where q2: "fb_request f1 = (b2, f2)" by (cases "fb_request f1")
  obtain b2' c2 where r2: "request c1 = (b2', c2)" by (cases "request c1")
  have e2: "b2' = b2" and m2: "mirrors f2 c2"
    using mirrors_request [OF m1] q2 r2 by simp_all
  have t1: "fb_technologies f1 = map as_doc (tech_items c1)" using m1 by (simp add: mirrors_def)
  show ?thesis
  proof (cases "filter (\<lambda>t. tech_name t = n) (tech_items c1)")
    case Nil
    then have "filter (\<lambda>t. tech_name t = Some n) (fb_technologies f1) = []"
      by (simp add: t1 filter_as_doc)
    then show ?thesis
      using q1 r1 e1 m1 Nil
      by (cases b1)
        (simp_all add: firebase_decrease_technology_count_def cloud_decrease_technology_count_def)
  next
    case (Cons tech rest)
    then have "filter (\<lambda>t. tech_name t = Some n) (fb_technologies f1) =
        as_doc tech # map as_doc rest"
      by (simp add: t1 filter_as_doc)
    then show ?thesis
      using q1 r1 e1 m1 q2 r2 e2 m2 Cons
      by (cases b1; cases b2)
        (simp_all add: firebase_decrease_technology_count_def cloud_decrease_technology_count_def
          Let_def,
          auto simp: mirrors_def o_def filter_map if_distrib [of as_doc] cong: if_cong)
  qed
qed

lemma mirrors_run:
  "mirrors f c \<Longrightarrow>
   mirrors (foldl (\<lambda>f' op. firebase_apply op f') f ops) (foldl (\<lambda>c' op. cloud_apply op c') c ops)"
proof (induction ops arbitrary: f c)
  case Nil
  then show ?case by simp
next
  case (Cons op ops)
  have "mirrors (firebase_apply op f) (cloud_apply op c)"
    using Cons.prems by (cases op) (simp_all add: mirrors_update mirrors_decrease)
  from Cons.IH [OF this] show ?case by simp
qed

lemma count_of_as_doc:
  "count_of (Some n) (map as_doc items) = map_option Some (count_of n items)"
  by (induction items) (auto simp: as_doc_def)

lemma mirrors_empty: "mirrors (empty_firebase bs) (empty_cloud bs)"
  by (simp add: mirrors_def empty_firebase_def empty_cloud_def)

lemma cloud_inv_empty: "cloud_inv (empty_cloud bs)"
  by (simp add: cloud_inv_def tally_inv_def empty_cloud_def)

lemma tally_inv_empty: "tally_inv (technologies (empty_world fs))"
  by (simp add: tally_inv_def empty_world_def)

section \<open>The tally counts\<close>

text \<open>
  Claim C2. Starting from an empty tally and with the backend answering, after any sequence
  of increments and decrements the entry of a name is, in each of the three backends, what
  the specification's count says: absent when that count is zero or below, and present
  with exactly that count otherwise. Whatever faults the operations meet (\<open>fs\<close>, \<open>bs\<close>),
  every stored count is at least 1.
\<close>

theorem tally_counts:
  "count_of n (technologies (foldl (\<lambda>w op. sqlite_apply op w) (empty_world []) ops)) =
     expected_entry n ops \<and>
   count_of (JStr n) (tech_items (foldl (\<lambda>c op. cloud_apply op c) (empty_cloud []) ops)) =
     expected_entry n ops \<and>
   count_of (Some (JStr n))
     (fb_technologies (foldl (\<lambda>f op. firebase_apply op f) (empty_firebase []) ops)) =
     map_option Some (expected_entry n ops) \<and>
   list_all (\<lambda>r. 1 \<le> tech_count r)
     (technologies (foldl (\<lambda>w op. sqlite_apply op w) (empty_world fs) ops)) \<and>
   list_all (\<lambda>r. 1 \<le> tech_count r)
     (tech_items (foldl (\<lambda>c op. cloud_apply op c) (empty_cloud bs) ops)) \<and>
   list_all (\<lambda>r. case tech_count r of None \<Rightarrow> False | Some k \<Rightarrow> 1 \<le> k)
     (fb_technologies (foldl (\<lambda>f op. firebase_apply op f) (empty_firebase bs) ops))"
proof -
  let ?w = "foldl (\<lambda>w op. sqlite_apply op w) (empty_world []) ops"
  let ?c = "foldl (\<lambda>c op. cloud_apply op c) (empty_cloud []) ops"
  let ?f = "foldl (\<lambda>f op. firebase_apply op f) (empty_firebase []) ops"
  have iw: "tally_inv (technologies ?w)"
    by (rule sqlite_run_inv [OF tally_inv_empty])
  have "stored n (technologies ?w) = foldl (logical_step n) (stored n (technologies (empty_world []))) ops"
    by (rule sqlite_run_exact) (simp_all add: empty_world_def tally_inv_def)
  then have sw: "stored n (technologies ?w) = logical_count n ops"
    by (simp add: logical_count_def empty_world_def stored_def)
  have 1: "count_of n (technologies ?w) = expected_entry n ops"
    using count_of_stored [OF iw, of n] sw by (simp add: expected_entry_def)
  have ic: "tally_inv (tech_items ?c)"
    using cloud_run_inv [OF cloud_inv_empty, of "[]" ops] by (simp add: cloud_inv_def)
  have "stored (JStr n) (tech_items ?c) =
      foldl (logical_step n) (stored (JStr n) (tech_items (empty_cloud []))) ops"
    by (rule cloud_run_exact) (simp_all add: cloud_inv_empty, simp add: empty_cloud_def)
  then have sc: "stored (JStr n) (tech_items ?c) = logical_count n ops"
    by (simp add: logical_count_def empty_cloud_def stored_def)
  have 2: "count_of (JStr n) (tech_items ?c) = expected_entry n ops"
    using count_of_stored [OF ic, of "JStr n"] sc by (simp add: expected_entry_def)
  have "mirrors ?f ?c" by (rule mirrors_run [OF mirrors_empty])
  then have "fb_technologies ?f = map as_doc (tech_items ?c)" by (simp add: mirrors_def)
  then have 3: "count_of (Some (JStr n)) (fb_technologies ?f) = map_option Some (expected_entry n ops)"
    using 2 by (simp add: count_of_as_doc)
  have 4: "list_all (\<lambda>r. 1 \<le> tech_count r)
     (technologies (foldl (\<lambda>w op. sqlite_apply op w) (empty_world fs) ops))"
    using sqlite_run_inv [OF tally_inv_empty, of fs ops] by (simp add: tally_inv_def)
  have 5: "list_all (\<lambda>r. 1 \<le> tech_count r)
     (tech_items (foldl (\<lambda>c op. cloud_apply op c) (empty_cloud bs) ops))"
    using cloud_run_inv [OF cloud_inv_empty, of bs ops] by (simp add: cloud_inv_def tally_inv_def)
  have "mirrors (foldl (\<lambda>f op. firebase_apply op f) (empty_firebase bs) ops)
      (foldl (\<lambda>c op. cloud_apply op c) (empty_cloud bs) ops)"
    by (rule mirrors_run [OF mirrors_empty])
  then have "fb_technologies (foldl (\<lambda>f op. firebase_apply op f) (empty_firebase bs) ops) =
      map as_doc (tech_items (foldl (\<lambda>c op. cloud_apply op c) (empty_cloud bs) ops))"
    by (simp add: mirrors_def)
  then have 6: "list_all (\<lambda>r. case tech_count r of None \<Rightarrow> False | Some k \<Rightarrow> 1 \<le> k)
     (fb_technologies (foldl (\<lambda>f op. firebase_apply op f) (empty_firebase bs) ops))"
    using 5 by (simp add: list_all_iff as_doc_def)
  from 1 2 3 4 5 6 show ?thesis by blast
qed

theorem tally_counts_witness:
  "count_of ''Go'' (technologies (foldl (\<lambda>w op. sqlite_apply op w) (empty_world [])
     [Decrement ''Go'', Increment ''Go'', Increment ''Go'', Decrement ''Go''])) = Some 1 \<and>
   count_of (JStr ''Go'') (tech_items (foldl (\<lambda>c op. cloud_apply op c) (empty_cloud [])
     [Increment ''Go'', Decrement ''Go'', Decrement ''Go''])) = None"
  using tally_counts [of "''Go''" "[Decrement ''Go'', Increment ''Go'', Increment ''Go'', Decrement ''Go'']"]
    tally_counts [of "''Go''" "[Increment ''Go'', Decrement ''Go'', Decrement ''Go'']"]
  by (simp add: expected_entry_def logical_count_def logical_step_def)

section \<open>The order of the snapshot\<close>
























section \<open>The order of insert and tally update\<close>

text \<open>
  In \<^verbatim>\<open>add_repository\<close> of database.py the tally is updated only after the row has been
  stored: a call that leaves the table of repositories as it was (a duplicate url, no
  connection, retries used up, any failure before the commit) leaves the tally as it was,
  under every fault script.
\<close>

theorem tally_changes_only_with_stored_row:
  assumes "repositories (snd (add_repository now url rd w)) = repositories w"
  shows "technologies (snd (add_repository now url rd w)) = technologies w"
proof -
  obtain w' where t: "repositories w' = repositories w" "technologies w' = technologies w"
    and c: "add_repository now url rd w = (False, w') \<or>
         add_repository now url rd w = add_repository_body now url rd w'"
    by (rule add_repository_cases)
  show ?thesis
  proof (cases "add_repository now url rd w = add_repository_body now url rd w' \<and>
      url \<notin> repo_url ` set (repositories w)")
    case True
    then have "repositories (snd (add_repository now url rd w)) =
        repositories w @ [new_row (next_repo_id w') now url rd]"
      using t by (simp add: add_repository_body_repositories)
    with assms show ?thesis by simp
  next
    case False
    then have "add_repository now url rd w = (False, w')"
      using c t by (auto simp: add_repository_body_def)
    then show ?thesis using t by simp
  qed
qed

theorem tally_changes_only_with_stored_row_witness:
  "repositories (snd (add_repository ''t'' ''u'' go_docker_data (empty_world [ConnectFailed]))) = [] \<and>
   technologies (snd (add_repository ''t'' ''u'' go_docker_data (empty_world [ConnectFailed]))) = []"
proof -
  have r: "repositories (snd (add_repository ''t'' ''u'' go_docker_data (empty_world [ConnectFailed]))) =
      repositories (empty_world [ConnectFailed])"
    by (simp add: add_repository_def retry_other_fault empty_world_def)
  from tally_changes_only_with_stored_row [OF r] r show ?thesis
    by (simp add: empty_world_def)
qed

end
